theory Spec2Isabelle
  imports Complex_Main
begin

section \<open>Text and regular expressions\<close>

text \<open>
  A Python \<open>str\<close> is modelled as a \<open>string\<close> whose characters are read as the code
  points 0..255. On that range the classes below are the ones Python's \<open>re\<close> module
  uses for \<open>str\<close> patterns: \<open>\s\<close> is \<open>str.isspace\<close>, \<open>\w\<close> is alphanumeric or
  underscore, and under \<open>re.IGNORECASE\<close> an ASCII letter of a pattern matches exactly
  its two ASCII cases.
\<close>

definition ord :: "char \<Rightarrow> nat" where
  "ord c = of_char c"

definition is_space :: "char \<Rightarrow> bool" where
  "is_space c = (let n = ord c in
     (9 \<le> n \<and> n \<le> 13) \<or> (28 \<le> n \<and> n \<le> 32) \<or> n = 133 \<or> n = 160)"

definition is_word :: "char \<Rightarrow> bool" where
  "is_word c = (let n = ord c in
     (48 \<le> n \<and> n \<le> 57) \<or> (65 \<le> n \<and> n \<le> 90) \<or> n = 95 \<or> (97 \<le> n \<and> n \<le> 122)
     \<or> n = 170 \<or> n = 178 \<or> n = 179 \<or> n = 181 \<or> n = 185 \<or> n = 186
     \<or> (188 \<le> n \<and> n \<le> 190) \<or> (192 \<le> n \<and> n \<le> 214) \<or> (216 \<le> n \<and> n \<le> 246)
     \<or> 248 \<le> n)"

definition ascii_lower :: "char \<Rightarrow> char" where
  "ascii_lower c = (let n = ord c in if 65 \<le> n \<and> n \<le> 90 then char_of (n + 32) else c)"

definition ascii_upper :: "char \<Rightarrow> char" where
  "ascii_upper c = (let n = ord c in if 97 \<le> n \<and> n \<le> 122 then char_of (n - 32) else c)"

text \<open>The flags of \<open>re\<close> that the source passes.\<close>

record re_flags =
  IGNORECASE :: bool
  MULTILINE :: bool
  DOTALL :: bool

definition no_flags :: re_flags where
  "no_flags = \<lparr>IGNORECASE = False, MULTILINE = False, DOTALL = False\<rparr>"

definition re_I :: re_flags where
  "re_I = no_flags\<lparr>IGNORECASE := True\<rparr>"

definition re_M :: re_flags where
  "re_M = no_flags\<lparr>MULTILINE := True\<rparr>"

definition re_S :: re_flags where
  "re_S = no_flags\<lparr>DOTALL := True\<rparr>"

definition re_IS :: re_flags where
  "re_IS = no_flags\<lparr>IGNORECASE := True, DOTALL := True\<rparr>"

text \<open>
  The fragment of the pattern language that the source uses: literals, \<open>\s\<close>, \<open>\w\<close>,
  \<open>.\<close>, concatenation, \<open>|\<close>, greedy \<open>*\<close>, lazy \<open>*?\<close>, \<open>\b\<close> and \<open>$\<close>;
  \<open>+\<close> and \<open>?\<close> are derived.
\<close>

datatype rx =
    Emp
  | Lit char
  | Space
  | Word
  | Dot
  | WordB
  | Eol
  | Seq rx rx
  | Alt rx rx
  | Star rx
  | LazyStar rx

definition Plus :: "rx \<Rightarrow> rx" where
  "Plus r = Seq r (Star r)"

definition Opt :: "rx \<Rightarrow> rx" where
  "Opt r = Alt r Emp"

definition Cat :: "rx list \<Rightarrow> rx" where
  "Cat rs = foldr Seq rs Emp"

definition Str :: "string \<Rightarrow> rx" where
  "Str s = Cat (map Lit s)"

text \<open>
  A position in the subject is the character before it (if any) and the text after it.
\<close>

type_synonym pos = "char option \<times> string"

definition lit_eq :: "re_flags \<Rightarrow> char \<Rightarrow> char \<Rightarrow> bool" where
  "lit_eq f p c = (if IGNORECASE f then ascii_lower p = ascii_lower c else p = c)"

definition dot_ok :: "re_flags \<Rightarrow> char \<Rightarrow> bool" where
  "dot_ok f c = (DOTALL f \<or> c \<noteq> CHR 0x0A)"

definition word_before :: "pos \<Rightarrow> bool" where
  "word_before p = (case fst p of None \<Rightarrow> False | Some c \<Rightarrow> is_word c)"

definition word_after :: "pos \<Rightarrow> bool" where
  "word_after p = (case snd p of [] \<Rightarrow> False | c # _ \<Rightarrow> is_word c)"

definition at_boundary :: "pos \<Rightarrow> bool" where
  "at_boundary p = (word_before p \<noteq> word_after p)"

definition at_eol :: "re_flags \<Rightarrow> pos \<Rightarrow> bool" where
  "at_eol f p = (case snd p of
       [] \<Rightarrow> True
     | c # cs \<Rightarrow> c = CHR 0x0A \<and> (MULTILINE f \<or> cs = []))"

definition one_char :: "(char \<Rightarrow> bool) \<Rightarrow> pos \<Rightarrow> pos list" where
  "one_char ok p = (case snd p of
       [] \<Rightarrow> []
     | c # cs \<Rightarrow> if ok c then [(Some c, cs)] else [])"

definition shorter :: "pos \<Rightarrow> pos \<Rightarrow> bool" where
  "shorter p q = (length (snd q) < length (snd p))"

text \<open>
  \<open>rx_match f r p\<close> lists the positions at which a match of \<open>r\<close> that starts at
  \<open>p\<close> can end, in the order in which the backtracking matcher of \<open>re\<close> tries
  them: the left branch of \<open>|\<close> first, more iterations of a greedy star first, fewer
  of a lazy one first. The head of the list is the match that \<open>re\<close> reports at \<open>p\<close>.
  An iteration of a star that consumes nothing is not repeated.
\<close>

function rx_match :: "re_flags \<Rightarrow> rx \<Rightarrow> pos \<Rightarrow> pos list" where
  "rx_match f Emp p = [p]"
| "rx_match f (Lit a) p = one_char (lit_eq f a) p"
| "rx_match f Space p = one_char is_space p"
| "rx_match f Word p = one_char is_word p"
| "rx_match f Dot p = one_char (dot_ok f) p"
| "rx_match f WordB p = (if at_boundary p then [p] else [])"
| "rx_match f Eol p = (if at_eol f p then [p] else [])"
| "rx_match f (Seq r1 r2) p = concat (map (rx_match f r2) (rx_match f r1 p))"
| "rx_match f (Alt r1 r2) p = rx_match f r1 p @ rx_match f r2 p"
| "rx_match f (Star r) p =
     concat (map (rx_match f (Star r)) (filter (shorter p) (rx_match f r p))) @ [p]"
| "rx_match f (LazyStar r) p =
     p # concat (map (rx_match f (LazyStar r)) (filter (shorter p) (rx_match f r p)))"
  by pat_completeness auto
termination
  by (relation "inv_image (less_than <*lex*> less_than) (\<lambda>(f, r, p). (size r, length (snd p)))")
     (auto simp: shorter_def)

text \<open>
  \<open>re.search\<close>: the first position, from the left, at which the pattern matches, with
  the end of the match found there.
\<close>

fun re_find :: "re_flags \<Rightarrow> rx \<Rightarrow> pos \<Rightarrow> (pos \<times> pos) option" where
  "re_find f r (b, []) =
     (case rx_match f r (b, []) of [] \<Rightarrow> None | e # _ \<Rightarrow> Some ((b, []), e))"
| "re_find f r (b, c # cs) =
     (case rx_match f r (b, c # cs) of
        [] \<Rightarrow> re_find f r (Some c, cs)
      | e # _ \<Rightarrow> Some ((b, c # cs), e))"

definition re_search :: "re_flags \<Rightarrow> rx \<Rightarrow> string \<Rightarrow> bool" where
  "re_search f r s = (re_find f r (None, s) \<noteq> None)"

text \<open>
  \<open>len(re.findall(...))\<close>: the number of matches found by scanning from the left, each
  search starting where the previous match ended (one character further after an empty
  match).
\<close>

function findall_count :: "re_flags \<Rightarrow> rx \<Rightarrow> pos \<Rightarrow> nat" where
  "findall_count f r p =
     (case rx_match f r p of
        [] \<Rightarrow> (case snd p of [] \<Rightarrow> 0 | c # cs \<Rightarrow> findall_count f r (Some c, cs))
      | e # _ \<Rightarrow>
          (if shorter p e then 1 + findall_count f r e
           else (case snd p of [] \<Rightarrow> 1 | c # cs \<Rightarrow> 1 + findall_count f r (Some c, cs))))"
  by pat_completeness auto
termination
  by (relation "measure (\<lambda>(f, r, p). length (snd p))") (auto simp: shorter_def)

definition re_findall_len :: "re_flags \<Rightarrow> rx \<Rightarrow> string \<Rightarrow> nat" where
  "re_findall_len f r s = findall_count f r (None, s)"

text \<open>
  \<open>re.sub(pattern, "", s)\<close>: the text with every match removed, scanning as
  \<open>findall\<close> does.
\<close>

function sub_empty :: "re_flags \<Rightarrow> rx \<Rightarrow> pos \<Rightarrow> string" where
  "sub_empty f r p =
     (case rx_match f r p of
        [] \<Rightarrow> (case snd p of [] \<Rightarrow> [] | c # cs \<Rightarrow> c # sub_empty f r (Some c, cs))
      | e # _ \<Rightarrow>
          (if shorter p e then sub_empty f r e
           else (case snd p of [] \<Rightarrow> [] | c # cs \<Rightarrow> c # sub_empty f r (Some c, cs))))"
  by pat_completeness auto
termination
  by (relation "measure (\<lambda>(f, r, p). length (snd p))") (auto simp: shorter_def)

definition re_sub_empty :: "re_flags \<Rightarrow> rx \<Rightarrow> string \<Rightarrow> string" where
  "re_sub_empty f r s = sub_empty f r (None, s)"

text \<open>\<open>str.strip()\<close>: leading and trailing whitespace removed.\<close>

definition strip :: "string \<Rightarrow> string" where
  "strip s = rev (dropWhile is_space (rev (dropWhile is_space s)))"


section \<open>Exceptions\<close>

text \<open>
  The exceptions that can reach the connection multiplexer, all of them subclasses of
  Python's \<open>Exception\<close>. \<open>DriverError\<close> is the error class of a backend driver
  (\<open>psycopg2.Error\<close>, \<open>mysql.connector.Error\<close>, \<open>cx_Oracle.Error\<close>),
  \<open>OtherError\<close> any other exception raised by a library.
\<close>

datatype exn =
    ValueError string
  | ConnectionError string
  | RuntimeError string
  | KeyError string
  | DriverError string
  | OtherError string

fun str_exn :: "exn \<Rightarrow> string" where
  "str_exn (ValueError m) = m"
| "str_exn (ConnectionError m) = m"
| "str_exn (RuntimeError m) = m"
| "str_exn (KeyError m) = m"
| "str_exn (DriverError m) = m"
| "str_exn (OtherError m) = m"

section \<open>Data model\<close>

datatype DatabaseType = POSTGRESQL | MYSQL | ORACLE | SQLITE

datatype QueryType = SELECT | INSERT | UPDATE | DELETE | CREATE | ALTER | DROP

datatype RiskLevel = LOW | MEDIUM | HIGH | CRITICAL

record DatabaseConnection =
  host :: string
  port :: int
  database :: string
  username :: string
  password :: string
  database_type :: DatabaseType
  ssl_mode :: "string option"
  connection_timeout :: int
  pool_size :: int

type_synonym params = "(string \<times> string) list"

record DatabaseQuery =
  query :: string
  parameters :: "params option"
  database_connection :: DatabaseConnection
  timeout :: int
  max_rows :: "int option"

type_synonym row = "(string \<times> string) list"

record QueryResult =
  success :: bool
  data :: "row list option"
  row_count :: int
  execution_time :: real
  error_message :: "string option"
  columns :: "string list option"
  query_type :: "QueryType option"

record QueryRiskAssessment =
  risk_level :: RiskLevel
  risk_score :: real
  warnings :: "string list"
  dangerous_operations :: "string list"
  is_safe :: bool
  recommendation :: "string option"

section \<open>Risk assessment engine\<close>

text \<open>
  The methods of \<open>SQLRiskChecker\<close>. A private method keeps its name without the leading
  underscore. The score is a Python float; it is modelled as a real number. Its summands
  are whole numbers and the complexity term \<open>min(total / 10.0, 1.0) * 5\<close>, which in
  floating point is exactly half of \<open>total\<close> below ten occurrences and 5 from ten on, so
  the float that the code computes is the real number of the model.
\<close>

definition dangerous_patterns :: "(string \<times> rx) list" where
  "dangerous_patterns =
    [(''drop_table'', Cat [WordB, Str ''DROP'', Plus Space, Str ''TABLE'', WordB]),
     (''drop_database'', Cat [WordB, Str ''DROP'', Plus Space, Str ''DATABASE'', WordB]),
     (''truncate_table'', Cat [WordB, Str ''TRUNCATE'', Plus Space, Str ''TABLE'', WordB]),
     (''delete_all'', Cat [WordB, Str ''DELETE'', Plus Space,
          Opt (Cat [Str ''FROM'', Plus Space]), Plus Word, Star Space, Eol]),
     (''update_all'', Cat [WordB, Str ''UPDATE'', Plus Space, Plus Word, Plus Space,
          Str ''SET'', WordB, Star Dot, WordB, Str ''WHERE'', Star Space, Eol]),
     (''alter_table_drop'', Cat [WordB, Str ''ALTER'', Plus Space, Str ''TABLE'', Plus Space,
          Plus Word, Plus Space, Str ''DROP'', WordB]),
     (''grant_all'', Cat [WordB, Str ''GRANT'', Plus Space, Str ''ALL'', WordB]),
     (''revoke_all'', Cat [WordB, Str ''REVOKE'', Plus Space, Str ''ALL'', WordB]),
     (''exec'', Alt (Cat [WordB, Str ''EXEC'', WordB]) (Cat [WordB, Str ''EXECUTE'', WordB])),
     (''xp_cmdshell'', Cat [WordB, Str ''xp_cmdshell'', WordB])]"

definition risk_weights :: "string \<Rightarrow> real" where
  "risk_weights k =
    (if k = ''dangerous_operation'' then 30
     else if k = ''data_modification'' then 15
     else if k = ''schema_change'' then 25
     else if k = ''no_where_clause'' then 20
     else if k = ''wildcard_select'' then 10
     else if k = ''system_command'' then 40
     else if k = ''complex_query'' then 5
     else 0)"

definition max_risk_score :: real where
  "max_risk_score = 100"

definition risk_thresholds :: "string \<Rightarrow> real" where
  "risk_thresholds k =
    (if k = ''low'' then 20
     else if k = ''medium'' then 40
     else if k = ''high'' then 70
     else if k = ''critical'' then 90
     else 0)"

definition any_search :: "rx list \<Rightarrow> string \<Rightarrow> bool" where
  "any_search pats q = list_ex (\<lambda>p. re_search re_I p q) pats"

definition is_data_modification_query :: "string \<Rightarrow> bool" where
  "is_data_modification_query q = any_search
    [Cat [WordB, Str ''INSERT'', Plus Space, Str ''INTO'', WordB],
     Cat [WordB, Str ''UPDATE'', Plus Space, Plus Word, Plus Space, Str ''SET'', WordB],
     Cat [WordB, Str ''DELETE'', Plus Space, Str ''FROM'', WordB],
     Cat [WordB, Str ''MERGE'', Plus Space, Str ''INTO'', WordB]] q"

definition is_schema_change_query :: "string \<Rightarrow> bool" where
  "is_schema_change_query q = any_search
    [Cat [WordB, Str ''CREATE'', Plus Space, Str ''TABLE'', WordB],
     Cat [WordB, Str ''ALTER'', Plus Space, Str ''TABLE'', WordB],
     Cat [WordB, Str ''DROP'', Plus Space, Str ''TABLE'', WordB],
     Cat [WordB, Str ''CREATE'', Plus Space, Str ''INDEX'', WordB],
     Cat [WordB, Str ''DROP'', Plus Space, Str ''INDEX'', WordB],
     Cat [WordB, Str ''CREATE'', Plus Space, Str ''VIEW'', WordB],
     Cat [WordB, Str ''DROP'', Plus Space, Str ''VIEW'', WordB]] q"

definition has_missing_where_clause :: "string \<Rightarrow> bool" where
  "has_missing_where_clause qry =
    (let up = Cat [WordB, Str ''UPDATE'', Plus Space, Plus Word, Plus Space, Str ''SET'', WordB];
         de = Cat [WordB, Str ''DELETE'', Plus Space,
                   Opt (Cat [Str ''FROM'', Plus Space]), Plus Word, Star Space, Eol];
         q1 = re_sub_empty re_M (Cat [Str ''--'', Star Dot, Eol]) qry;
         q = strip (re_sub_empty re_S (Cat [Str ''/*'', LazyStar Dot, Str ''*/'']) q1)
     in if re_search re_I up q \<or> re_search re_I de q
        then \<not> re_search re_I (Cat [WordB, Str ''WHERE'', WordB, Star Dot, Eol]) q
        else False)"

definition has_wildcard_select :: "string \<Rightarrow> bool" where
  "has_wildcard_select q =
     re_search re_I (Cat [WordB, Str ''SELECT'', Plus Space, Str ''*'', WordB]) q"

definition contains_system_commands :: "string \<Rightarrow> bool" where
  "contains_system_commands q = any_search
    [Cat [WordB, Str ''SHUTDOWN'', WordB],
     Cat [WordB, Str ''BACKUP'', Plus Space, Str ''DATABASE'', WordB],
     Cat [WordB, Str ''RESTORE'', Plus Space, Str ''DATABASE'', WordB],
     Cat [WordB, Str ''EXEC'', Plus Space, Str ''sp_''],
     Cat [WordB, Str ''xp_cmdshell'', WordB]] q"

definition alts :: "string list \<Rightarrow> rx" where
  "alts ws = foldr (\<lambda>w r. Alt (Str w) r) (butlast ws) (Str (last ws))"

definition complexity_factors :: "string \<Rightarrow> nat list" where
  "complexity_factors q =
    [re_findall_len re_IS (Cat [WordB, Str ''SELECT'', WordB, Star Dot, WordB, Str ''FROM'',
        WordB, Star Dot, Str ''('', Star Space, Str ''SELECT'', WordB]) q,
     re_findall_len re_I (Cat [WordB,
        alts [''JOIN'', ''INNER JOIN'', ''LEFT JOIN'', ''RIGHT JOIN'', ''FULL JOIN''], WordB]) q,
     re_findall_len re_I (Cat [WordB, Str ''UNION'', WordB]) q,
     re_findall_len re_I (Cat [WordB, Str ''GROUP'', Plus Space, Str ''BY'', WordB]) q,
     re_findall_len re_I (Cat [WordB, Str ''HAVING'', WordB]) q,
     re_findall_len re_I (Cat [WordB, Str ''ORDER'', Plus Space, Str ''BY'', WordB]) q,
     re_findall_len re_I (Cat [WordB, Str ''CASE'', WordB]) q,
     re_findall_len re_I (Cat [WordB,
        alts [''COUNT'', ''SUM'', ''AVG'', ''MIN'', ''MAX'', ''CONCAT'', ''SUBSTRING''], WordB]) q]"

definition calculate_complexity_score :: "string \<Rightarrow> real" where
  "calculate_complexity_score q =
    (let total = sum_list (complexity_factors q) in min (real total / 10) 1)"

definition determine_risk_level :: "real \<Rightarrow> RiskLevel" where
  "determine_risk_level score =
    (if score \<ge> risk_thresholds ''critical'' then CRITICAL
     else if score \<ge> risk_thresholds ''high'' then HIGH
     else if score \<ge> risk_thresholds ''medium'' then MEDIUM
     else LOW)"

fun join :: "string \<Rightarrow> string list \<Rightarrow> string" where
  "join sep [] = []"
| "join sep [x] = x"
| "join sep (x # y # ys) = x @ sep @ join sep (y # ys)"

definition recommendation_for :: "RiskLevel \<Rightarrow> string list \<Rightarrow> string list \<Rightarrow> string" where
  "recommendation_for level dangerous warns =
    (if level = CRITICAL then ''Query blocked: Critical risk level''
     else if level = HIGH then ''High risk query''
     else if level = MEDIUM then ''Medium risk query''
     else if dangerous \<noteq> [] then ''Dangerous operations: '' @ join '', '' dangerous
     else (case warns of w # _ \<Rightarrow> w | [] \<Rightarrow> ''Query appears safe''))"

text \<open>The local variables of \<open>assess_query_risk\<close>.\<close>

record locals =
  l_score :: real
  l_warnings :: "string list"
  l_dangerous :: "string list"
  l_safe :: bool

fun dangerous_loop :: "(string \<times> rx) list \<Rightarrow> string \<Rightarrow> locals \<Rightarrow> locals" where
  "dangerous_loop [] q v = v"
| "dangerous_loop ((name, pattern) # rest) q v =
     dangerous_loop rest q
       (if re_search re_I pattern q
        then v\<lparr>l_score := l_score v + risk_weights ''dangerous_operation'',
                l_dangerous := l_dangerous v @ [name],
                l_warnings := l_warnings v @ [''Dangerous operation detected: '' @ name],
                l_safe := False\<rparr>
        else v)"

definition heuristics :: "string \<Rightarrow> locals \<Rightarrow> locals" where
  "heuristics q v0 =
    (let v1 = (if is_data_modification_query q
               then v0\<lparr>l_score := l_score v0 + risk_weights ''data_modification'',
                        l_warnings := l_warnings v0 @ [''Data modification operation detected'']\<rparr>
               else v0);
         v2 = (if is_schema_change_query q
               then v1\<lparr>l_score := l_score v1 + risk_weights ''schema_change'',
                        l_warnings := l_warnings v1 @ [''Schema modification operation detected'']\<rparr>
               else v1);
         v3 = (if has_missing_where_clause q
               then v2\<lparr>l_score := l_score v2 + risk_weights ''no_where_clause'',
                        l_warnings := l_warnings v2 @ [''UPDATE/DELETE query without WHERE clause''],
                        l_safe := False\<rparr>
               else v2);
         v4 = (if has_wildcard_select q
               then v3\<lparr>l_score := l_score v3 + risk_weights ''wildcard_select'',
                        l_warnings := l_warnings v3 @ [''Wildcard SELECT statement detected'']\<rparr>
               else v3);
         v5 = (if contains_system_commands q
               then v4\<lparr>l_score := l_score v4 + risk_weights ''system_command'',
                        l_warnings := l_warnings v4 @ [''System command detected''],
                        l_safe := False\<rparr>
               else v4)
     in v5\<lparr>l_score := l_score v5 + calculate_complexity_score q * risk_weights ''complex_query''\<rparr>)"

text \<open>
  \<open>sqlparse\<close> is a library outside the repository. Its result on the query, the
  statements it found or the exception it raised, is the first argument; the code looks
  only at whether the tuple of statements is empty.
\<close>

type_synonym statement = string

definition assess_query_risk ::
    "exn + statement list \<Rightarrow> string \<Rightarrow> exn + QueryRiskAssessment" where
  "assess_query_risk parsed q =
    (case parsed of
       Inl e \<Rightarrow> Inl e
     | Inr [] \<Rightarrow> Inr \<lparr>risk_level = HIGH, risk_score = 80, warnings = [''Invalid SQL syntax''],
                     dangerous_operations = [], is_safe = False,
                     recommendation = Some ''Unable to parse SQL query''\<rparr>
     | Inr (st # sts) \<Rightarrow>
        (let v0 = \<lparr>l_score = 0, l_warnings = [], l_dangerous = [], l_safe = True\<rparr>;
             v = heuristics q (dangerous_loop dangerous_patterns q v0);
             score = min (l_score v) max_risk_score;
             level = determine_risk_level score;
             rec = recommendation_for level (l_dangerous v) (l_warnings v)
         in Inr \<lparr>risk_level = level, risk_score = score, warnings = l_warnings v,
                 dangerous_operations = l_dangerous v,
                 is_safe = (l_safe v \<and> score < risk_thresholds ''high''),
                 recommendation = Some rec\<rparr>))"


text \<open>
  Names for what the assessment is made of: the dangerous patterns found in a text, the
  weight and the warnings of the further heuristics, and the clamped total.
\<close>

definition matched :: "(string \<times> rx) list \<Rightarrow> string \<Rightarrow> string list" where
  "matched ps q = map fst (filter (\<lambda>np. re_search re_I (snd np) q) ps)"

definition heuristic_weight :: "string \<Rightarrow> real" where
  "heuristic_weight q =
     (if is_data_modification_query q then 15 else 0)
   + (if is_schema_change_query q then 25 else 0)
   + (if has_missing_where_clause q then 20 else 0)
   + (if has_wildcard_select q then 10 else 0)
   + (if contains_system_commands q then 40 else 0)
   + calculate_complexity_score q * 5"

definition heuristic_warnings :: "string \<Rightarrow> string list" where
  "heuristic_warnings q =
     (if is_data_modification_query q then [''Data modification operation detected''] else [])
   @ (if is_schema_change_query q then [''Schema modification operation detected''] else [])
   @ (if has_missing_where_clause q then [''UPDATE/DELETE query without WHERE clause''] else [])
   @ (if has_wildcard_select q then [''Wildcard SELECT statement detected''] else [])
   @ (if contains_system_commands q then [''System command detected''] else [])"

definition danger_warnings :: "string \<Rightarrow> string list" where
  "danger_warnings q =
     map (\<lambda>n. ''Dangerous operation detected: '' @ n) (matched dangerous_patterns q)"

definition total_score :: "string \<Rightarrow> real" where
  "total_score q =
     min (30 * real (length (matched dangerous_patterns q)) + heuristic_weight q) 100"

section \<open>Connectors\<close>

text \<open>
  \<open>_parse_query_type\<close> of \<open>BaseDatabaseConnector\<close>. \<open>str.upper\<close> maps the letter
  with code point 223 to two letters; the capitals of the code points 181 and 255 lie
  beyond 255 and the model leaves these two characters as they are (neither they nor
  their capitals occur in a keyword).
\<close>

definition upper_char :: "char \<Rightarrow> string" where
  "upper_char c = (let n = ord c in
     if n = 223 then ''SS''
     else if (97 \<le> n \<and> n \<le> 122) \<or> (224 \<le> n \<and> n \<le> 254 \<and> n \<noteq> 247)
       then [char_of (n - 32)]
     else [c])"

definition upper :: "string \<Rightarrow> string" where
  "upper s = concat (map upper_char s)"

definition startswith :: "string \<Rightarrow> string \<Rightarrow> bool" where
  "startswith s p = (take (length p) s = p)"

definition parse_query_type :: "string \<Rightarrow> QueryType" where
  "parse_query_type qry =
    (let q = upper (strip qry) in
     if startswith q ''SELECT'' then SELECT
     else if startswith q ''INSERT'' then INSERT
     else if startswith q ''UPDATE'' then UPDATE
     else if startswith q ''DELETE'' then DELETE
     else if startswith q ''CREATE'' then CREATE
     else if startswith q ''ALTER'' then ALTER
     else if startswith q ''DROP'' then DROP
     else SELECT)"

text \<open>
  The reading of the specification: the leading keyword of a statement is its first
  word, the longest run of \<open>\w\<close> characters at the start of the trimmed text.
\<close>

definition leading_keyword :: "string \<Rightarrow> string" where
  "leading_keyword qry = takeWhile is_word (strip qry)"

definition same_word :: "string \<Rightarrow> string \<Rightarrow> bool" where
  "same_word a b = (map ascii_upper a = map ascii_upper b)"

definition classify_by_keyword :: "string \<Rightarrow> QueryType" where
  "classify_by_keyword qry =
    (let k = leading_keyword qry in
     if same_word k ''SELECT'' then SELECT
     else if same_word k ''INSERT'' then INSERT
     else if same_word k ''UPDATE'' then UPDATE
     else if same_word k ''DELETE'' then DELETE
     else if same_word k ''CREATE'' then CREATE
     else if same_word k ''ALTER'' then ALTER
     else if same_word k ''DROP'' then DROP
     else SELECT)"

text \<open>The seven keywords and their kinds, in the order of the tests above.\<close>

definition keyword_kinds :: "(string \<times> QueryType) list" where
  "keyword_kinds = [(''SELECT'', SELECT), (''INSERT'', INSERT), (''UPDATE'', UPDATE),
               (''DELETE'', DELETE), (''CREATE'', CREATE), (''ALTER'', ALTER), (''DROP'', DROP)]"

definition is_upper_ascii :: "char \<Rightarrow> bool" where
  "is_upper_ascii c = (65 \<le> ord c \<and> ord c \<le> 90)"

text \<open>
  A connector is an object: the multiplexer holds references to connectors, and the
  objects live in a store. The three backends have the same shape; what the backend
  driver answers is given by the environment, at the instant of the call (the number of
  events so far), and every call that reaches a driver or a connector's \<open>close\<close> is
  recorded in the trace.
\<close>

type_synonym ref = nat

record Connector =
  connection :: DatabaseConnection
  is_connected :: bool
  has_connection :: bool

datatype event =
    Connect ref
  | Execute ref string
  | Explain ref string
  | Test ref
  | CloseCalled ref
  | DriverClose ref

record cursor =
  rows :: "row list"
  description :: "string list"
  rowcount :: int

record env =
  import_module :: "string \<Rightarrow> exn option"
  drv_connect :: "nat \<Rightarrow> DatabaseConnection \<Rightarrow> exn option"
  drv_close :: "nat \<Rightarrow> DatabaseConnection \<Rightarrow> exn option"
  drv_execute :: "nat \<Rightarrow> DatabaseConnection \<Rightarrow> string \<Rightarrow> params option \<Rightarrow> exn + cursor"
  drv_explain :: "nat \<Rightarrow> DatabaseConnection \<Rightarrow> string \<Rightarrow> exn option"
  drv_test :: "nat \<Rightarrow> DatabaseConnection \<Rightarrow> exn + bool"
  sqlparse_parse :: "string \<Rightarrow> exn + statement list"
  clock :: "nat \<Rightarrow> real"

record state =
  connectors :: "(string \<times> ref) list"
  heap :: "ref \<Rightarrow> Connector"
  next_ref :: ref
  trace :: "event list"

definition now :: "state \<Rightarrow> nat" where
  "now s = length (trace s)"

definition emit :: "event \<Rightarrow> state \<Rightarrow> state" where
  "emit ev s = s\<lparr>trace := trace s @ [ev]\<rparr>"

definition store :: "ref \<Rightarrow> Connector \<Rightarrow> state \<Rightarrow> state" where
  "store r c s = s\<lparr>heap := (heap s)(r := c)\<rparr>"

definition connect :: "env \<Rightarrow> ref \<Rightarrow> state \<Rightarrow> (exn + unit) \<times> state" where
  "connect E r s =
    (let c = heap s r; s1 = emit (Connect r) s in
     case drv_connect E (now s) (connection c) of
       None \<Rightarrow> (Inr (), store r (c\<lparr>has_connection := True, is_connected := True\<rparr>) s1)
     | Some (DriverError m) \<Rightarrow> (Inl (ConnectionError m), s1)
     | Some e \<Rightarrow> (Inl e, s1))"

definition disconnect :: "env \<Rightarrow> ref \<Rightarrow> state \<Rightarrow> (exn + unit) \<times> state" where
  "disconnect E r s =
    (let c = heap s r in
     if has_connection c then
       (let s1 = emit (DriverClose r) s in
        case drv_close E (now s) (connection c) of
          Some e \<Rightarrow> (Inl e, s1)
        | None \<Rightarrow> (Inr (), store r (c\<lparr>has_connection := False, is_connected := False\<rparr>) s1))
     else (Inr (), s))"

definition close :: "env \<Rightarrow> ref \<Rightarrow> state \<Rightarrow> (exn + unit) \<times> state" where
  "close E r s0 =
    (let s = emit (CloseCalled r) s0 in
     if is_connected (heap s r) then
       (case disconnect E r s of
          (Inl e, s1) \<Rightarrow> (Inl e, s1)
        | (Inr u, s1) \<Rightarrow> (Inr (), store r ((heap s1 r)\<lparr>is_connected := False\<rparr>) s1))
     else (Inr (), s))"

definition connector_execute_query ::
    "env \<Rightarrow> ref \<Rightarrow> string \<Rightarrow> params option \<Rightarrow> state \<Rightarrow> (exn + QueryResult) \<times> state" where
  "connector_execute_query E r q ps s =
    (let c = heap s r in
     if \<not> is_connected c then (Inl (RuntimeError ''Not connected''), s)
     else
       (let s1 = emit (Execute r q) s in
        case drv_execute E (now s) (connection c) q ps of
          Inl e \<Rightarrow> (Inl e, s1)
        | Inr cur \<Rightarrow>
           (let qt = parse_query_type q in
            if qt = SELECT then
              (Inr \<lparr>success = True, data = Some (rows cur), row_count = int (length (rows cur)),
                    execution_time = 0, error_message = None,
                    columns = Some (description cur), query_type = Some qt\<rparr>, s1)
            else
              (Inr \<lparr>success = True, data = None, row_count = rowcount cur,
                    execution_time = 0, error_message = None,
                    columns = None, query_type = Some qt\<rparr>, s1))))"

definition connector_validate_syntax ::
    "env \<Rightarrow> ref \<Rightarrow> string \<Rightarrow> state \<Rightarrow> (exn + bool) \<times> state" where
  "connector_validate_syntax E r q s =
    (let c = heap s r in
     if \<not> is_connected c then (Inr False, s)
     else
       (let s1 = emit (Explain r q) s in
        case drv_explain E (now s) (connection c) q of
          None \<Rightarrow> (Inr True, s1)
        | Some (DriverError m) \<Rightarrow> (Inr False, s1)
        | Some e \<Rightarrow> (Inl e, s1)))"

definition connector_test_connection ::
    "env \<Rightarrow> ref \<Rightarrow> state \<Rightarrow> (exn + bool) \<times> state" where
  "connector_test_connection E r s =
    (let c = heap s r in
     if \<not> is_connected c then (Inr False, s)
     else
       (let s1 = emit (Test r) s in
        case drv_test E (now s) (connection c) of
          Inl e \<Rightarrow> (Inr False, s1)
        | Inr b \<Rightarrow> (Inr b, s1)))"


section \<open>Connection multiplexer\<close>

text \<open>
  \<open>DatabaseTool\<close>. The cache \<open>_connectors\<close> is a Python dictionary, whose entries keep
  the order in which their keys were first inserted: an association list with distinct
  keys.
\<close>

definition dict_set :: "'k \<Rightarrow> 'v \<Rightarrow> ('k \<times> 'v) list \<Rightarrow> ('k \<times> 'v) list" where
  "dict_set k v d =
    (if k \<in> fst ` set d then map (\<lambda>kv. if fst kv = k then (k, v) else kv) d
     else d @ [(k, v)])"

definition dict_del :: "string \<Rightarrow> (string \<times> 'v) list \<Rightarrow> exn + (string \<times> 'v) list" where
  "dict_del k d =
    (if k \<in> fst ` set d then Inr (filter (\<lambda>kv. fst kv \<noteq> k) d) else Inl (KeyError k))"

text \<open>
  The text of a database type in a formatted string. \<open>DatabaseType\<close> mixes \<open>str\<close>
  into \<open>Enum\<close>: up to Python 3.10 the text is the value of the member, as below; from
  3.11 on it is the name of the member after \<open>DatabaseType.\<close>. Either way the text
  has no colon and determines the type.
\<close>

fun type_str :: "DatabaseType \<Rightarrow> string" where
  "type_str POSTGRESQL = ''postgresql''"
| "type_str MYSQL = ''mysql''"
| "type_str ORACLE = ''oracle''"
| "type_str SQLITE = ''sqlite''"

fun connector_types :: "DatabaseType \<Rightarrow> string option" where
  "connector_types POSTGRESQL = Some ''src.database.connectors.postgresql.PostgreSQLConnector''"
| "connector_types MYSQL = Some ''src.database.connectors.mysql.MySQLConnector''"
| "connector_types ORACLE = Some ''src.database.connectors.oracle.OracleConnector''"
| "connector_types SQLITE = None"

text \<open>\<open>str\<close> of an integer: its decimal digits, after a minus sign if negative.\<close>

definition digit :: "nat \<Rightarrow> char" where
  "digit d = char_of (48 + d)"

function digits :: "nat \<Rightarrow> string" where
  "digits n = (if n < 10 then [digit n] else digits (n div 10) @ [digit (n mod 10)])"
  by pat_completeness auto
termination
  by (relation "measure id") auto

declare digits.simps [simp del]

definition str_int :: "int \<Rightarrow> string" where
  "str_int i = (if i < 0 then CHR ''-'' # digits (nat (- i)) else digits (nat i))"

definition conn_key :: "DatabaseConnection \<Rightarrow> string" where
  "conn_key c = type_str (database_type c) @ '':'' @ host c @ '':'' @ str_int (port c)
     @ '':'' @ database c @ '':'' @ username c"

text \<open>\<open>cls_path.rsplit(".", 1)[0]\<close>: the text before the last full stop.\<close>

definition module_path :: "string \<Rightarrow> string" where
  "module_path p = rev (drop 1 (dropWhile (\<lambda>c. c \<noteq> CHR ''.'') (rev p)))"

definition get_connector ::
    "env \<Rightarrow> DatabaseConnection \<Rightarrow> state \<Rightarrow> (exn + ref) \<times> state" where
  "get_connector E conn s =
    (let key = conn_key conn in
     case map_of (connectors s) key of
       Some r \<Rightarrow> (Inr r, s)
     | None \<Rightarrow>
        (case connector_types (database_type conn) of
           None \<Rightarrow> (Inl (ValueError (''Unsupported database type: '' @ type_str (database_type conn))), s)
         | Some cls_path \<Rightarrow>
            (case import_module E (module_path cls_path) of
               Some e \<Rightarrow> (Inl e, s)
             | None \<Rightarrow>
                (let r = next_ref s;
                     s1 = (store r \<lparr>connection = conn, is_connected = False,
                                     has_connection = False\<rparr> s)\<lparr>next_ref := Suc r\<rparr>
                 in case connect E r s1 of
                      (Inl e, s2) \<Rightarrow> (Inl e, s2)
                    | (Inr u, s2) \<Rightarrow> (Inr r, s2\<lparr>connectors := dict_set key r (connectors s2)\<rparr>)))))"

definition failure :: "string \<Rightarrow> real \<Rightarrow> QueryResult" where
  "failure msg t = \<lparr>success = False, data = None, row_count = 0, execution_time = t,
                   error_message = Some msg, columns = None, query_type = Some SELECT\<rparr>"

text \<open>\<open>ra.recommendation or "Query blocked"\<close>.\<close>

definition blocked_message :: "QueryRiskAssessment \<Rightarrow> string" where
  "blocked_message ra =
    (case recommendation ra of
       None \<Rightarrow> ''Query blocked''
     | Some m \<Rightarrow> if m = [] then ''Query blocked'' else m)"

text \<open>
  Each of the three guarded operations is the body of its \<open>try\<close>, which may end in an
  exception, and the operation itself, which adds the \<open>except Exception\<close> clause.
\<close>

definition execute_query_try ::
    "env \<Rightarrow> DatabaseQuery \<Rightarrow> bool \<Rightarrow> real \<Rightarrow> state \<Rightarrow> (exn + QueryResult) \<times> state" where
  "execute_query_try E q validate_safety start s =
    (let early =
       (if validate_safety then
          (case assess_query_risk (sqlparse_parse E (query q)) (query q) of
             Inl e \<Rightarrow> Some (Inl e)
           | Inr ra \<Rightarrow>
              if \<not> is_safe ra
              then Some (Inr (failure (blocked_message ra) (clock E (now s) - start)))
              else None)
        else None)
     in case early of
          Some out \<Rightarrow> (out, s)
        | None \<Rightarrow>
           (case get_connector E (database_connection q) s of
              (Inl e, s1) \<Rightarrow> (Inl e, s1)
            | (Inr c, s1) \<Rightarrow>
               (case connector_execute_query E c (query q) (parameters q) s1 of
                  (Inl e, s2) \<Rightarrow> (Inl e, s2)
                | (Inr res, s2) \<Rightarrow>
                   (Inr (res\<lparr>execution_time := clock E (now s2) - start\<rparr>), s2))))"

definition execute_query ::
    "env \<Rightarrow> DatabaseQuery \<Rightarrow> bool \<Rightarrow> state \<Rightarrow> (exn + QueryResult) \<times> state" where
  "execute_query E q validate_safety s =
    (let start = clock E (now s) in
     case execute_query_try E q validate_safety start s of
       (Inl e, s1) \<Rightarrow> (Inr (failure (str_exn e) (clock E (now s1) - start)), s1)
     | (Inr res, s1) \<Rightarrow> (Inr res, s1))"

definition validate_query_try ::
    "env \<Rightarrow> string \<Rightarrow> DatabaseConnection \<Rightarrow> state \<Rightarrow> (exn + QueryRiskAssessment) \<times> state" where
  "validate_query_try E q conn s =
    (case get_connector E conn s of
       (Inl e, s1) \<Rightarrow> (Inl e, s1)
     | (Inr c, s1) \<Rightarrow>
        (case connector_validate_syntax E c q s1 of
           (Inl e, s2) \<Rightarrow> (Inl e, s2)
         | (Inr syntax_ok, s2) \<Rightarrow>
            (case assess_query_risk (sqlparse_parse E q) q of
               Inl e \<Rightarrow> (Inl e, s2)
             | Inr ra \<Rightarrow>
                if \<not> syntax_ok
                then (Inr (ra\<lparr>is_safe := False,
                               recommendation := Some ''Query has syntax errors''\<rparr>), s2)
                else (Inr ra, s2))))"

definition validate_query ::
    "env \<Rightarrow> string \<Rightarrow> DatabaseConnection \<Rightarrow> state \<Rightarrow> (exn + QueryRiskAssessment) \<times> state" where
  "validate_query E q conn s =
    (case validate_query_try E q conn s of
       (Inl e, s1) \<Rightarrow>
         (Inr \<lparr>risk_level = HIGH, risk_score = 100, warnings = [], dangerous_operations = [],
               is_safe = False,
               recommendation = Some (''Validation failed: '' @ str_exn e)\<rparr>, s1)
     | (Inr ra, s1) \<Rightarrow> (Inr ra, s1))"

definition test_connection_try ::
    "env \<Rightarrow> DatabaseConnection \<Rightarrow> state \<Rightarrow> (exn + bool) \<times> state" where
  "test_connection_try E conn s =
    (case get_connector E conn s of
       (Inl e, s1) \<Rightarrow> (Inl e, s1)
     | (Inr c, s1) \<Rightarrow> connector_test_connection E c s1)"

definition test_connection ::
    "env \<Rightarrow> DatabaseConnection \<Rightarrow> state \<Rightarrow> (exn + bool) \<times> state" where
  "test_connection E conn s =
    (case test_connection_try E conn s of
       (Inl e, s1) \<Rightarrow> (Inr False, s1)
     | (Inr b, s1) \<Rightarrow> (Inr b, s1))"

definition close_connection ::
    "env \<Rightarrow> DatabaseConnection \<Rightarrow> state \<Rightarrow> (exn + unit) \<times> state" where
  "close_connection E conn s =
    (let key = conn_key conn in
     case map_of (connectors s) key of
       None \<Rightarrow> (Inr (), s)
     | Some c \<Rightarrow>
        (case close E c s of
           (Inl e, s1) \<Rightarrow> (Inl e, s1)
         | (Inr u, s1) \<Rightarrow>
            (case dict_del key (connectors s1) of
               Inl e \<Rightarrow> (Inl e, s1)
             | Inr d \<Rightarrow> (Inr (), s1\<lparr>connectors := d\<rparr>))))"

text \<open>
  The loop of \<open>close_all_connections\<close> over \<open>list(self._connectors.items())\<close>. The
  body is a \<open>try\<close> with a \<open>finally\<close> clause and no \<open>except\<close> clause: the entry is
  deleted whether \<open>close\<close> raised or not, and an exception of \<open>close\<close> then leaves
  the loop.
\<close>

fun close_all_loop :: "env \<Rightarrow> (string \<times> ref) list \<Rightarrow> state \<Rightarrow> (exn + unit) \<times> state" where
  "close_all_loop E [] s = (Inr (), s)"
| "close_all_loop E ((key, c) # items) s =
    (case close E c s of
       (res, s1) \<Rightarrow>
         (case dict_del key (connectors s1) of
            Inl e \<Rightarrow> (Inl e, s1)
          | Inr d \<Rightarrow>
             (case res of
                Inl e \<Rightarrow> (Inl e, s1\<lparr>connectors := d\<rparr>)
              | Inr u \<Rightarrow> close_all_loop E items (s1\<lparr>connectors := d\<rparr>))))"

definition close_all_connections :: "env \<Rightarrow> state \<Rightarrow> (exn + unit) \<times> state" where
  "close_all_connections E s = close_all_loop E (connectors s) s"

text \<open>
  The state reached by invoking \<open>close\<close> on the given connectors one after the other,
  provided that none of these invocations raises.
\<close>

fun close_in_turn :: "env \<Rightarrow> ref list \<Rightarrow> state \<Rightarrow> state option" where
  "close_in_turn E [] s = Some s"
| "close_in_turn E (c # cs) s =
    (case close E c s of
       (Inl e, s1) \<Rightarrow> None
     | (Inr u, s1) \<Rightarrow> close_in_turn E cs s1)"

text \<open>What the trace says: the connectors on which \<open>close\<close> was invoked, in order.\<close>

fun closed_of :: "event \<Rightarrow> ref list" where
  "closed_of (CloseCalled r) = [r]"
| "closed_of ev = []"

definition closes :: "event list \<Rightarrow> ref list" where
  "closes evs = concat (map closed_of evs)"

fun is_connect :: "event \<Rightarrow> bool" where
  "is_connect (Connect r) = True"
| "is_connect ev = False"

definition connects :: "event list \<Rightarrow> nat" where
  "connects evs = length (filter is_connect evs)"

text \<open>
  A well-formed state: the keys of the cache are distinct, as are the connectors it
  refers to, all of them allocated.
\<close>

definition wf_state :: "state \<Rightarrow> bool" where
  "wf_state s = (distinct (map fst (connectors s)) \<and> distinct (map snd (connectors s))
     \<and> list_all (\<lambda>kr. snd kr < next_ref s) (connectors s))"


section \<open>Sample inputs\<close>

text \<open>
  A descriptor and a query built as the \<open>pydantic\<close> models build them, with the default
  values of the optional fields; a freshly constructed \<open>DatabaseTool\<close>; an environment
  in which every library call succeeds, and one in which the driver of host \<open>a\<close> fails
  to close.
\<close>

definition descriptor ::
    "DatabaseType \<Rightarrow> string \<Rightarrow> int \<Rightarrow> string \<Rightarrow> string \<Rightarrow> string \<Rightarrow> DatabaseConnection" where
  "descriptor t h p d u pw =
     \<lparr>host = h, port = p, database = d, username = u, password = pw, database_type = t,
      ssl_mode = None, connection_timeout = 30, pool_size = 5\<rparr>"

definition query_on :: "DatabaseConnection \<Rightarrow> string \<Rightarrow> DatabaseQuery" where
  "query_on c q = \<lparr>query = q, parameters = None, database_connection = c, timeout = 30,
                   max_rows = None\<rparr>"

definition initial :: state where
  "initial = \<lparr>connectors = [],
              heap = (\<lambda>r. \<lparr>connection = descriptor SQLITE [] 0 [] [] [], is_connected = False,
                           has_connection = False\<rparr>),
              next_ref = 0, trace = []\<rparr>"

definition quiet :: env where
  "quiet = \<lparr>import_module = (\<lambda>m. None),
            drv_connect = (\<lambda>t c. None),
            drv_close = (\<lambda>t c. None),
            drv_execute = (\<lambda>t c q ps. Inr \<lparr>rows = [], description = [], rowcount = 0\<rparr>),
            drv_explain = (\<lambda>t c q. None),
            drv_test = (\<lambda>t c. Inr True),
            sqlparse_parse = (\<lambda>q. Inr (if q = [] then [] else [q])),
            clock = real\<rparr>"

definition close_fails :: env where
  "close_fails = quiet\<lparr>drv_close :=
     (\<lambda>t c. if host c = ''a'' then Some (DriverError ''connection already closed'') else None)\<rparr>"

definition pg_a :: DatabaseConnection where
  "pg_a = descriptor POSTGRESQL ''a'' 5432 ''shop'' ''root'' ''pw''"

definition my_b :: DatabaseConnection where
  "my_b = descriptor MYSQL ''b'' 3306 ''shop'' ''root'' ''pw''"

definition connected :: "DatabaseConnection \<Rightarrow> Connector" where
  "connected c = \<lparr>connection = c, is_connected = True, has_connection = True\<rparr>"

text \<open>The state after the descriptors \<open>pg_a\<close> and \<open>my_b\<close> have been resolved in turn.\<close>

definition one_cached :: state where
  "one_cached = \<lparr>connectors = [(''postgresql:a:5432:shop:root'', 0)],
                 heap = (heap initial)(0 := connected pg_a),
                 next_ref = 1, trace = [Connect 0]\<rparr>"

definition two_cached :: state where
  "two_cached = \<lparr>connectors = [(''postgresql:a:5432:shop:root'', 0), (''mysql:b:3306:shop:root'', 1)],
                 heap = (heap initial)(0 := connected pg_a, 1 := connected my_b),
                 next_ref = 2, trace = [Connect 0, Connect 1]\<rparr>"

definition lite :: DatabaseConnection where
  "lite = descriptor SQLITE ''local'' 0 ''main'' ''me'' ''pw''"


text \<open>Two descriptors whose database and user names contain a colon.\<close>

definition sales_eu :: DatabaseConnection where
  "sales_eu = descriptor POSTGRESQL ''db'' 5432 ''sales:eu'' ''app'' ''pw1''"

definition sales :: DatabaseConnection where
  "sales = descriptor POSTGRESQL ''db'' 5432 ''sales'' ''eu:app'' ''pw2''"

text \<open>The state after \<open>sales_eu\<close> has been resolved by a fresh multiplexer.\<close>

definition sales_cached :: state where
  "sales_cached = \<lparr>connectors = [(''postgresql:db:5432:sales:eu:app'', 0)],
                   heap = (heap initial)(0 := connected sales_eu),
                   next_ref = 1, trace = [Connect 0]\<rparr>"

section \<open>Properties of the risk assessment engine\<close>

lemma risk_weights_simps:
  "risk_weights ''dangerous_operation'' = 30"
  "risk_weights ''data_modification'' = 15"
  "risk_weights ''schema_change'' = 25"
  "risk_weights ''no_where_clause'' = 20"
  "risk_weights ''wildcard_select'' = 10"
  "risk_weights ''system_command'' = 40"
  "risk_weights ''complex_query'' = 5"
  by (simp_all add: risk_weights_def)

lemma risk_thresholds_simps:
  "risk_thresholds ''medium'' = 40"
  "risk_thresholds ''high'' = 70"
  "risk_thresholds ''critical'' = 90"
  by (simp_all add: risk_thresholds_def)

lemma matched_Nil: "matched [] q = []"
  by (simp add: matched_def)

lemma matched_Cons:
  "matched ((n, p) # ps) q = (if re_search re_I p q then n # matched ps q else matched ps q)"
  by (simp add: matched_def)

lemma matched_mem:
  "(name, pattern) \<in> set ps \<Longrightarrow> re_search re_I pattern q \<Longrightarrow> name \<in> set (matched ps q)"
  by (force simp: matched_def)

lemma dangerous_loop_dangerous:
  "l_dangerous (dangerous_loop ps q v) = l_dangerous v @ matched ps q"
  by (induction ps q v rule: dangerous_loop.induct) (simp_all add: matched_Nil matched_Cons)

lemma dangerous_loop_score:
  "l_score (dangerous_loop ps q v) = l_score v + 30 * real (length (matched ps q))"
  by (induction ps q v rule: dangerous_loop.induct)
     (simp_all add: matched_Nil matched_Cons risk_weights_simps)

lemma dangerous_loop_safe:
  "l_safe (dangerous_loop ps q v) = (l_safe v \<and> matched ps q = [])"
  by (induction ps q v rule: dangerous_loop.induct) (simp_all add: matched_Nil matched_Cons)

lemma dangerous_loop_warnings:
  "l_warnings (dangerous_loop ps q v) =
     l_warnings v @ map (\<lambda>n. ''Dangerous operation detected: '' @ n) (matched ps q)"
  by (induction ps q v rule: dangerous_loop.induct) (simp_all add: matched_Nil matched_Cons)

lemma heuristics_dangerous: "l_dangerous (heuristics q v) = l_dangerous v"
  by (simp add: heuristics_def Let_def)

lemma heuristics_safe:
  "l_safe (heuristics q v) =
     (l_safe v \<and> \<not> has_missing_where_clause q \<and> \<not> contains_system_commands q)"
  by (simp add: heuristics_def Let_def)

lemma heuristics_score: "l_score (heuristics q v) = l_score v + heuristic_weight q"
  by (simp add: heuristics_def Let_def heuristic_weight_def risk_weights_simps)

lemma heuristics_warnings: "l_warnings (heuristics q v) = l_warnings v @ heuristic_warnings q"
  by (simp add: heuristics_def Let_def heuristic_warnings_def)

lemma complexity_range:
  "0 \<le> calculate_complexity_score q \<and> calculate_complexity_score q \<le> 1"
  by (simp add: calculate_complexity_score_def Let_def)

lemma heuristic_weight_nonneg: "0 \<le> heuristic_weight q"
  using complexity_range [of q] by (simp add: heuristic_weight_def)

lemma total_score_range: "0 \<le> total_score q \<and> total_score q \<le> 100"
  using heuristic_weight_nonneg [of q] by (simp add: total_score_def)

text \<open>The assessment of a text that \<open>sqlparse\<close> could split into statements.\<close>

lemma assess_parsed:
  "assess_query_risk (Inr (st # sts)) q =
     Inr \<lparr>risk_level = determine_risk_level (total_score q),
          risk_score = total_score q,
          warnings = danger_warnings q @ heuristic_warnings q,
          dangerous_operations = matched dangerous_patterns q,
          is_safe = (matched dangerous_patterns q = [] \<and> \<not> has_missing_where_clause q
                     \<and> \<not> contains_system_commands q \<and> total_score q < 70),
          recommendation = Some (recommendation_for (determine_risk_level (total_score q))
             (matched dangerous_patterns q) (danger_warnings q @ heuristic_warnings q))\<rparr>"
  by (simp add: assess_query_risk_def Let_def heuristics_dangerous heuristics_safe
      heuristics_score heuristics_warnings dangerous_loop_dangerous dangerous_loop_score
      dangerous_loop_safe dangerous_loop_warnings total_score_def danger_warnings_def
      max_risk_score_def risk_thresholds_simps)

lemma assess_unparsed:
  "assess_query_risk (Inr []) q =
     Inr \<lparr>risk_level = HIGH, risk_score = 80, warnings = [''Invalid SQL syntax''],
          dangerous_operations = [], is_safe = False,
          recommendation = Some ''Unable to parse SQL query''\<rparr>"
  by (simp add: assess_query_risk_def)

lemma assess_cases:
  assumes "assess_query_risk parsed q = Inr a"
  obtains (unparsed) "parsed = Inr []" | (parsed) st sts where "parsed = Inr (st # sts)"
  using assms by (cases parsed) (auto simp: assess_query_risk_def split: list.splits)

lemma determine_risk_level_eq:
  "determine_risk_level s =
     (if 90 \<le> s then CRITICAL else if 70 \<le> s then HIGH else if 40 \<le> s then MEDIUM else LOW)"
  by (simp add: determine_risk_level_def risk_thresholds_simps)

lemma warnings_nonempty:
  "w \<in> set (danger_warnings q @ heuristic_warnings q) \<Longrightarrow> w \<noteq> []"
  by (auto simp: danger_warnings_def heuristic_warnings_def split: if_splits)

lemma recommendation_for_nonempty:
  assumes "\<And>w. w \<in> set ws \<Longrightarrow> w \<noteq> []"
  shows "recommendation_for l d ws \<noteq> []"
  using assms by (cases ws) (auto simp: recommendation_for_def)

lemma assess_recommendation:
  assumes "assess_query_risk parsed q = Inr ra"
  shows "\<exists>m. recommendation ra = Some m \<and> m \<noteq> []"
  using assms
proof (cases rule: assess_cases)
  case unparsed
  with assms show ?thesis by (auto simp: assess_unparsed)
next
  case (parsed st sts)
  have "recommendation_for l d (danger_warnings q @ heuristic_warnings q) \<noteq> []" for l d
    by (rule recommendation_for_nonempty) (rule warnings_nonempty)
  with parsed assms show ?thesis by (auto simp: assess_parsed)
qed

lemma blocked_message_eq:
  assumes "assess_query_risk parsed q = Inr ra"
  shows "Some (blocked_message ra) = recommendation ra"
  using assess_recommendation [OF assms] by (auto simp: blocked_message_def)

text \<open>Three texts assessed by evaluation.\<close>

lemma assess_delete_from_users:
  "assess_query_risk (Inr (st # sts)) ''DELETE FROM users'' =
     Inr \<lparr>risk_level = MEDIUM, risk_score = 65,
          warnings = [''Dangerous operation detected: delete_all'',
                      ''Data modification operation detected'',
                      ''UPDATE/DELETE query without WHERE clause''],
          dangerous_operations = [''delete_all''], is_safe = False,
          recommendation = Some ''Medium risk query''\<rparr>"
  by code_simp

lemma assess_select_1:
  "assess_query_risk (Inr (st # sts)) ''SELECT 1'' =
     Inr \<lparr>risk_level = LOW, risk_score = 0, warnings = [], dangerous_operations = [],
          is_safe = True, recommendation = Some ''Query appears safe''\<rparr>"
  by code_simp

lemma assess_grant_all:
  "assess_query_risk (Inr (st # sts)) ''GRANT ALL'' =
     Inr \<lparr>risk_level = LOW, risk_score = 30,
          warnings = [''Dangerous operation detected: grant_all''],
          dangerous_operations = [''grant_all''], is_safe = False,
          recommendation = Some ''Dangerous operations: grant_all''\<rparr>"
  by code_simp

lemma search_drop_table:
  "re_search re_I (Cat [WordB, Str ''DROP'', Plus Space, Str ''TABLE'', WordB]) ''DROP TABLE t''"
  by code_simp

text \<open>
  Claim C4. When a text that \<open>sqlparse\<close> could parse matches one of the ten dangerous
  patterns, the assessment is not safe, the name of the pattern is among the
  \<open>dangerous_operations\<close>, which are the names of all matching patterns, and every
  match adds 30 to the score, which is then clamped to 100.
\<close>

theorem dangerous_match_forces_unsafe:
  assumes "(name, pattern) \<in> set dangerous_patterns" and "re_search re_I pattern q"
  shows "length dangerous_patterns = 10
       \<and> (\<exists>a. assess_query_risk (Inr (st # sts)) q = Inr a
           \<and> is_safe a = False
           \<and> name \<in> set (dangerous_operations a)
           \<and> dangerous_operations a = matched dangerous_patterns q
           \<and> risk_score a =
               min (30 * real (length (matched dangerous_patterns q)) + heuristic_weight q) 100)"
proof -
  from assms have m: "name \<in> set (matched dangerous_patterns q)"
    by (rule matched_mem)
  then have "matched dangerous_patterns q \<noteq> []" by auto
  moreover have "length dangerous_patterns = 10"
    by (simp add: dangerous_patterns_def)
  ultimately show ?thesis using m
    by (simp add: assess_parsed total_score_def)
qed

theorem dangerous_match_forces_unsafe_witness:
  "(''drop_table'', Cat [WordB, Str ''DROP'', Plus Space, Str ''TABLE'', WordB])
      \<in> set dangerous_patterns
   \<and> re_search re_I (Cat [WordB, Str ''DROP'', Plus Space, Str ''TABLE'', WordB]) ''DROP TABLE t''
   \<and> is_safe (projr (assess_query_risk (Inr [''DROP TABLE t'']) ''DROP TABLE t'')) = False
   \<and> ''drop_table''
      \<in> set (dangerous_operations (projr (assess_query_risk (Inr [''DROP TABLE t'']) ''DROP TABLE t'')))"
proof -
  have m: "(''drop_table'', Cat [WordB, Str ''DROP'', Plus Space, Str ''TABLE'', WordB])
      \<in> set dangerous_patterns"
    by (simp add: dangerous_patterns_def)
  from dangerous_match_forces_unsafe [OF m search_drop_table, of "''DROP TABLE t''" "[]"]
  obtain a where "assess_query_risk (Inr [''DROP TABLE t'']) ''DROP TABLE t'' = Inr a"
    and "is_safe a = False" and "''drop_table'' \<in> set (dangerous_operations a)"
    by blast
  with m search_drop_table show ?thesis by simp
qed

text \<open>
  Claim C5. The score of every assessment lies between 0 and 100, and the level is the
  function of the score given by the thresholds 90, 70 and 40.
\<close>

theorem score_range_and_level:
  assumes "assess_query_risk parsed q = Inr a"
  shows "0 \<le> risk_score a \<and> risk_score a \<le> 100
       \<and> risk_level a =
           (if 90 \<le> risk_score a then CRITICAL
            else if 70 \<le> risk_score a then HIGH
            else if 40 \<le> risk_score a then MEDIUM
            else LOW)"
  using assms
proof (cases rule: assess_cases)
  case unparsed
  with assms show ?thesis by (auto simp: assess_unparsed)
next
  case (parsed st sts)
  with assms have a: "risk_score a = total_score q"
    "risk_level a = determine_risk_level (total_score q)"
    by (auto simp: assess_parsed)
  show ?thesis
    unfolding a using total_score_range [of q] by (simp add: determine_risk_level_eq)
qed

theorem score_range_and_level_witness:
  "assess_query_risk (Inr [''SELECT 1'']) ''SELECT 1'' =
     Inr \<lparr>risk_level = LOW, risk_score = 0, warnings = [], dangerous_operations = [],
          is_safe = True, recommendation = Some ''Query appears safe''\<rparr>
   \<and> risk_score (projr (assess_query_risk (Inr [''SELECT 1'']) ''SELECT 1'')) \<le> 100
   \<and> risk_level (projr (assess_query_risk (Inr [''SELECT 1'']) ''SELECT 1'')) = LOW"
proof -
  note e = assess_select_1 [of "''SELECT 1''" "[]"]
  from score_range_and_level [OF e] e show ?thesis by simp
qed

text \<open>
  Claim C6. The text \<open>DELETE FROM users\<close>, once parsed, is assessed with the score
  65 = 30 + 15 + 20: the \<open>delete_all\<close> pattern, the data modification and the missing
  \<open>WHERE\<close> clause, and nothing else; the level is MEDIUM and the query is not safe.
\<close>

theorem delete_from_users_assessment:
  "\<exists>a. assess_query_risk (Inr (st # sts)) ''DELETE FROM users'' = Inr a
     \<and> risk_score a = 65
     \<and> risk_score a = 30 * real (length (matched dangerous_patterns ''DELETE FROM users'')) + 15 + 20
     \<and> dangerous_operations a = [''delete_all'']
     \<and> warnings a = [''Dangerous operation detected: delete_all'',
                      ''Data modification operation detected'',
                      ''UPDATE/DELETE query without WHERE clause'']
     \<and> risk_level a = MEDIUM
     \<and> is_safe a = False"
proof -
  have "matched dangerous_patterns ''DELETE FROM users'' = [''delete_all'']"
    using assess_delete_from_users [of st sts] by (simp add: assess_parsed)
  then show ?thesis
    by (simp add: assess_delete_from_users)
qed

text \<open>
  Claim C7, as amended. The recommendation follows the level for CRITICAL, HIGH and
  MEDIUM; at level LOW it is the text \<open>Dangerous operations: \<close> followed by the names
  of the dangerous operations joined by a comma and a space (there is then at most one
  name), else the first warning, else \<open>Query appears safe\<close>.
\<close>

theorem recommendation_by_level:
  assumes "assess_query_risk (Inr (st # sts)) q = Inr a"
  shows "recommendation a = Some
          (if risk_level a = CRITICAL then ''Query blocked: Critical risk level''
           else if risk_level a = HIGH then ''High risk query''
           else if risk_level a = MEDIUM then ''Medium risk query''
           else if dangerous_operations a \<noteq> []
             then ''Dangerous operations: '' @ join '', '' (dangerous_operations a)
           else if warnings a \<noteq> [] then hd (warnings a)
           else ''Query appears safe'')
       \<and> (risk_level a = LOW \<longrightarrow> length (dangerous_operations a) \<le> 1)"
proof -
  from assms have a: "risk_level a = determine_risk_level (total_score q)"
    "dangerous_operations a = matched dangerous_patterns q"
    "warnings a = danger_warnings q @ heuristic_warnings q"
    "recommendation a = Some (recommendation_for (determine_risk_level (total_score q))
       (matched dangerous_patterns q) (danger_warnings q @ heuristic_warnings q))"
    by (auto simp: assess_parsed)
  have "length (matched dangerous_patterns q) \<le> 1" if "determine_risk_level (total_score q) = LOW"
  proof -
    from that have "total_score q < 40"
      by (simp add: determine_risk_level_eq split: if_splits)
    then have "30 * real (length (matched dangerous_patterns q)) + heuristic_weight q < 40"
      by (simp add: total_score_def)
    with heuristic_weight_nonneg [of q]
    have "30 * real (length (matched dangerous_patterns q)) < 40" by linarith
    then have "real (length (matched dangerous_patterns q)) < 2" by linarith
    then show ?thesis by simp
  qed
  then show ?thesis
    unfolding a
    by (cases "danger_warnings q @ heuristic_warnings q")
       (simp_all add: recommendation_for_def)
qed

theorem recommendation_by_level_witness:
  "recommendation (projr (assess_query_risk (Inr [''GRANT ALL'']) ''GRANT ALL'')) =
     Some (''Dangerous operations: '' @ join '', '' [''grant_all''])
   \<and> length (dangerous_operations (projr (assess_query_risk (Inr [''GRANT ALL'']) ''GRANT ALL''))) \<le> 1"
proof -
  note e = assess_grant_all [of "''GRANT ALL''" "[]"]
  from recommendation_by_level [OF e] e show ?thesis by simp
qed

text \<open>
  The claim as it was stated fails: for \<open>GRANT ALL\<close> the level is LOW, the one
  dangerous operation is \<open>grant_all\<close>, and the recommendation is not that name.
\<close>

theorem recommendation_first_name_counterexample:
  "risk_level (projr (assess_query_risk (Inr [''GRANT ALL'']) ''GRANT ALL'')) = LOW
   \<and> dangerous_operations (projr (assess_query_risk (Inr [''GRANT ALL'']) ''GRANT ALL''))
       = [''grant_all'']
   \<and> recommendation (projr (assess_query_risk (Inr [''GRANT ALL'']) ''GRANT ALL''))
       = Some ''Dangerous operations: grant_all''
   \<and> recommendation (projr (assess_query_risk (Inr [''GRANT ALL'']) ''GRANT ALL''))
       \<noteq> Some (hd (dangerous_operations
                     (projr (assess_query_risk (Inr [''GRANT ALL'']) ''GRANT ALL''))))"
  by (simp add: assess_grant_all)

text \<open>
  Claim C10. A safe assessment has no dangerous operation, a score below 70 and the
  level LOW or MEDIUM.
\<close>

theorem safe_assessment_bounds:
  assumes "assess_query_risk parsed q = Inr a" and "is_safe a"
  shows "dangerous_operations a = [] \<and> risk_score a < 70
       \<and> (risk_level a = LOW \<or> risk_level a = MEDIUM)"
  using assms(1)
proof (cases rule: assess_cases)
  case unparsed
  with assms show ?thesis by (auto simp: assess_unparsed)
next
  case (parsed st sts)
  with assms show ?thesis
    by (auto simp: assess_parsed determine_risk_level_eq)
qed

theorem safe_assessment_bounds_witness:
  "is_safe (projr (assess_query_risk (Inr [''SELECT 1'']) ''SELECT 1''))
   \<and> dangerous_operations (projr (assess_query_risk (Inr [''SELECT 1'']) ''SELECT 1'')) = []
   \<and> risk_score (projr (assess_query_risk (Inr [''SELECT 1'']) ''SELECT 1'')) < 70"
proof -
  note e = assess_select_1 [of "''SELECT 1''" "[]"]
  have s: "is_safe \<lparr>risk_level = LOW, risk_score = 0, warnings = [], dangerous_operations = [],
          is_safe = True, recommendation = Some ''Query appears safe''\<rparr>"
    by simp
  from safe_assessment_bounds [OF e s] e show ?thesis by simp
qed

section \<open>Properties of the connection multiplexer\<close>

lemma close_connectors: "connectors (snd (close E c s)) = connectors s"
  by (simp add: close_def disconnect_def Let_def emit_def store_def
      split: option.splits prod.splits sum.splits)

lemma closes_append: "closes (xs @ ys) = closes xs @ closes ys"
  by (simp add: closes_def)

lemma close_closes: "closes (trace (snd (close E c s))) = closes (trace s) @ [c]"
  by (simp add: close_def disconnect_def Let_def emit_def store_def closes_def
      split: option.splits prod.splits sum.splits)

lemma dict_del_head:
  assumes "k \<notin> fst ` set items"
  shows "dict_del k ((k, c) # items) = Inr items"
proof -
  from assms have "filter (\<lambda>kv. fst kv \<noteq> k) items = items"
    by (induction items) auto
  then show ?thesis by (simp add: dict_del_def)
qed

lemma close_all_loop_spec:
  assumes "connectors s = items" and "distinct (map fst items)"
  shows "\<exists>visited rest. items = visited @ rest
       \<and> connectors (snd (close_all_loop E items s)) = rest
       \<and> closes (trace (snd (close_all_loop E items s))) = closes (trace s) @ map snd visited
       \<and> (case fst (close_all_loop E items s) of Inr u \<Rightarrow> rest = [] | Inl e \<Rightarrow> visited \<noteq> [])"
  using assms
proof (induction items arbitrary: s)
  case Nil
  then show ?case by simp
next
  case (Cons kc items)
  obtain key c where kc: "kc = (key, c)" by (cases kc)
  obtain res s1 where cl: "close E c s = (res, s1)" by (cases "close E c s")
  from cl have s1: "connectors s1 = connectors s" "closes (trace s1) = closes (trace s) @ [c]"
    using close_connectors [of E c s] close_closes [of E c s] by simp_all
  from Cons.prems kc have fresh: "key \<notin> fst ` set items" by auto
  from s1 Cons.prems kc fresh have del: "dict_del key (connectors s1) = Inr items"
    by (simp add: dict_del_head)
  show ?case
  proof (cases res)
    case (Inl e)
    with kc cl del s1 have
      "(key, c) # items = [(key, c)] @ items"
      "connectors (snd (close_all_loop E (kc # items) s)) = items"
      "closes (trace (snd (close_all_loop E (kc # items) s))) = closes (trace s) @ map snd [(key, c)]"
      "fst (close_all_loop E (kc # items) s) = Inl e"
      by simp_all
    with kc show ?thesis
      by (intro exI [of _ "[(key, c)]"] exI [of _ items]) simp
  next
    case (Inr u)
    let ?s2 = "s1\<lparr>connectors := items\<rparr>"
    from Inr kc cl del have step:
      "close_all_loop E (kc # items) s = close_all_loop E items ?s2"
      by simp
    from Cons.prems have "connectors ?s2 = items" "distinct (map fst items)" by simp_all
    from Cons.IH [OF this] obtain visited rest where ih:
      "items = visited @ rest"
      "connectors (snd (close_all_loop E items ?s2)) = rest"
      "closes (trace (snd (close_all_loop E items ?s2))) = closes (trace ?s2) @ map snd visited"
      "case fst (close_all_loop E items ?s2) of Inr u \<Rightarrow> rest = [] | Inl e \<Rightarrow> visited \<noteq> []"
      by blast
    show ?thesis
      using ih kc s1 unfolding step
      by (intro exI [of _ "(key, c) # visited"] exI [of _ rest])
         (auto split: sum.splits)
  qed
qed

lemma close_ignores_cache:
  "close E c (s\<lparr>connectors := x\<rparr>)
     = (fst (close E c s), (snd (close E c s))\<lparr>connectors := x\<rparr>)"
  by (simp add: close_def disconnect_def Let_def emit_def store_def now_def
      split: option.splits prod.splits sum.splits)

lemma close_all_loop_prefix:
  assumes "distinct (map fst (visited @ items))"
      and "close_in_turn E (map snd visited) s = Some s1"
  shows "close_all_loop E (visited @ items) (s\<lparr>connectors := visited @ items\<rparr>)
       = close_all_loop E items (s1\<lparr>connectors := items\<rparr>)"
  using assms
proof (induction visited arbitrary: s)
  case Nil
  then show ?case by simp
next
  case (Cons kc visited)
  obtain key c where kc: "kc = (key, c)" by (cases kc)
  obtain res s' where cl: "close E c s = (res, s')" by (cases "close E c s")
  from Cons.prems(2) kc cl obtain u where res: "res = Inr u"
    and turn: "close_in_turn E (map snd visited) s' = Some s1"
    by (cases res) simp_all
  from Cons.prems(1) kc have fresh: "key \<notin> fst ` set (visited @ items)"
    and d: "distinct (map fst (visited @ items))"
    by auto
  from fresh have del: "dict_del key ((key, c) # visited @ items) = Inr (visited @ items)"
    by (rule dict_del_head)
  from kc cl res del have
    "close_all_loop E ((kc # visited) @ items) (s\<lparr>connectors := (kc # visited) @ items\<rparr>)
       = close_all_loop E (visited @ items) (s'\<lparr>connectors := visited @ items\<rparr>)"
    by (simp add: close_ignores_cache)
  also from Cons.IH [OF d turn]
  have "\<dots> = close_all_loop E items (s1\<lparr>connectors := items\<rparr>)" .
  finally show ?case .
qed

lemma close_never_raises:
  assumes "\<And>t d. drv_close E t d = None"
  shows "\<exists>u. fst (close E c s) = Inr u"
  using assms
  by (simp add: close_def disconnect_def Let_def split: prod.splits sum.splits)

lemma close_in_turn_total:
  assumes "\<And>t d. drv_close E t d = None"
  shows "\<exists>s1. close_in_turn E cs s = Some s1"
proof (induction cs arbitrary: s)
  case Nil
  then show ?case by simp
next
  case (Cons c cs)
  from close_never_raises [OF assms, of c s] obtain u s' where "close E c s = (Inr u, s')"
    by (cases "close E c s") auto
  with Cons.IH [of s'] show ?case by simp
qed

text \<open>
  Claim C3, as amended. \<open>close_all_connections\<close> goes through the cache in the order of
  insertion; on each connector it visits it invokes \<open>close\<close> once and removes the
  entry. It stops at the first \<open>close\<close> that raises: the exception reaches the caller,
  and the entries not yet visited stay in the cache, their connectors not closed. When
  no \<open>close\<close> raises it returns normally, the cache is empty and every connector was
  closed once.
\<close>

theorem close_all_until_first_failure:
  assumes "distinct (map fst (connectors s))"
  shows "(\<exists>visited rest. connectors s = visited @ rest
       \<and> connectors (snd (close_all_connections E s)) = rest
       \<and> closes (trace (snd (close_all_connections E s))) = closes (trace s) @ map snd visited
       \<and> (case fst (close_all_connections E s) of Inr u \<Rightarrow> rest = [] | Inl e \<Rightarrow> visited \<noteq> []))
     \<and> (\<forall>visited key c rest s1 e s2.
           connectors s = visited @ (key, c) # rest
           \<and> close_in_turn E (map snd visited) s = Some s1
           \<and> close E c s1 = (Inl e, s2) \<longrightarrow>
           close_all_connections E s = (Inl e, s2\<lparr>connectors := rest\<rparr>))
     \<and> (\<forall>s1. close_in_turn E (map snd (connectors s)) s = Some s1 \<longrightarrow>
           close_all_connections E s = (Inr (), s1\<lparr>connectors := []\<rparr>)
           \<and> closes (trace s1) = closes (trace s) @ map snd (connectors s))
     \<and> ((\<forall>t d. drv_close E t d = None) \<longrightarrow>
           (\<exists>s1. close_in_turn E (map snd (connectors s)) s = Some s1))"
proof (intro conjI allI impI)
  show "\<exists>visited rest. connectors s = visited @ rest
       \<and> connectors (snd (close_all_connections E s)) = rest
       \<and> closes (trace (snd (close_all_connections E s))) = closes (trace s) @ map snd visited
       \<and> (case fst (close_all_connections E s) of Inr u \<Rightarrow> rest = [] | Inl e \<Rightarrow> visited \<noteq> [])"
    unfolding close_all_connections_def
    using close_all_loop_spec [OF refl assms] .
next
  fix visited key c rest s1 e s2
  assume a: "connectors s = visited @ (key, c) # rest
           \<and> close_in_turn E (map snd visited) s = Some s1
           \<and> close E c s1 = (Inl e, s2)"
  let ?items = "(key, c) # rest"
  from a assms have d: "distinct (map fst (visited @ ?items))" by simp
  then have "key \<notin> fst ` set rest" by auto
  then have del: "dict_del key ((key, c) # rest) = Inr rest" by (rule dict_del_head)
  from a have eq: "s\<lparr>connectors := visited @ ?items\<rparr> = s" by (cases s) simp
  have "close_all_connections E s
      = close_all_loop E (visited @ ?items) (s\<lparr>connectors := visited @ ?items\<rparr>)"
    unfolding eq using a by (simp add: close_all_connections_def)
  also have "\<dots> = close_all_loop E ?items (s1\<lparr>connectors := ?items\<rparr>)"
    by (rule close_all_loop_prefix [OF d]) (simp add: a)
  also from a del have "\<dots> = (Inl e, s2\<lparr>connectors := rest\<rparr>)"
    by (simp add: close_ignores_cache)
  finally show "close_all_connections E s = (Inl e, s2\<lparr>connectors := rest\<rparr>)" .
next
  fix s1
  assume a: "close_in_turn E (map snd (connectors s)) s = Some s1"
  from assms have d: "distinct (map fst (connectors s @ []))" by simp
  have eq: "s\<lparr>connectors := connectors s @ []\<rparr> = s" by (cases s) simp
  have "close_all_connections E s
      = close_all_loop E (connectors s @ []) (s\<lparr>connectors := connectors s @ []\<rparr>)"
    unfolding eq by (simp add: close_all_connections_def)
  also have "\<dots> = close_all_loop E [] (s1\<lparr>connectors := []\<rparr>)"
    by (rule close_all_loop_prefix [OF d a])
  finally show r: "close_all_connections E s = (Inr (), s1\<lparr>connectors := []\<rparr>)" by simp
  from close_all_loop_spec [OF refl assms, of E] obtain visited rest where
    v: "connectors s = visited @ rest"
      "connectors (snd (close_all_connections E s)) = rest"
      "closes (trace (snd (close_all_connections E s))) = closes (trace s) @ map snd visited"
    unfolding close_all_connections_def by blast
  from v(2) r have "rest = []" by simp
  with v r show "closes (trace s1) = closes (trace s) @ map snd (connectors s)" by simp
next
  assume "\<forall>t d. drv_close E t d = None"
  then show "\<exists>s1. close_in_turn E (map snd (connectors s)) s = Some s1"
    by (intro close_in_turn_total) simp
qed

lemma two_cached_fields:
  "connectors two_cached = [(''postgresql:a:5432:shop:root'', 0), (''mysql:b:3306:shop:root'', 1)]"
  "trace two_cached = [Connect 0, Connect 1]"
  by (simp_all add: two_cached_def)

lemma sample_fields:
  "database_type pg_a = POSTGRESQL" "database_type my_b = MYSQL"
  "host pg_a = ''a''" "host my_b = ''b''"
  by (simp_all add: pg_a_def my_b_def descriptor_def)

lemma close_first_fails:
  "close close_fails 0 two_cached =
     (Inl (DriverError ''connection already closed''),
      two_cached\<lparr>trace := [Connect 0, Connect 1, CloseCalled 0, DriverClose 0]\<rparr>)"
  by (simp add: close_def disconnect_def Let_def emit_def store_def now_def two_cached_def
      connected_def close_fails_def quiet_def sample_fields)

theorem close_all_until_first_failure_witness:
  "distinct (map fst (connectors two_cached))
   \<and> close_in_turn close_fails (map snd []) two_cached = Some two_cached
   \<and> close close_fails 0 two_cached =
       (Inl (DriverError ''connection already closed''),
        two_cached\<lparr>trace := [Connect 0, Connect 1, CloseCalled 0, DriverClose 0]\<rparr>)
   \<and> close_all_connections close_fails two_cached =
       (Inl (DriverError ''connection already closed''),
        two_cached\<lparr>trace := [Connect 0, Connect 1, CloseCalled 0, DriverClose 0],
                   connectors := [(''mysql:b:3306:shop:root'', 1)]\<rparr>)
   \<and> (\<forall>t d. drv_close quiet t d = None)
   \<and> fst (close_all_connections quiet two_cached) = Inr ()
   \<and> connectors (snd (close_all_connections quiet two_cached)) = []
   \<and> closes (trace (snd (close_all_connections quiet two_cached))) = [0, 1]"
proof -
  have d: "distinct (map fst (connectors two_cached))"
    by (simp add: two_cached_fields)
  note f = close_all_until_first_failure [OF d, of close_fails]
  note q = close_all_until_first_failure [OF d, of quiet]
  have t: "close_in_turn close_fails (map snd []) two_cached = Some two_cached" by simp
  have c: "connectors two_cached
      = [] @ (''postgresql:a:5432:shop:root'', 0) # [(''mysql:b:3306:shop:root'', 1)]"
    by (simp add: two_cached_fields)
  from f c t close_first_fails
  have r1: "close_all_connections close_fails two_cached =
       (Inl (DriverError ''connection already closed''),
        two_cached\<lparr>trace := [Connect 0, Connect 1, CloseCalled 0, DriverClose 0],
                   connectors := [(''mysql:b:3306:shop:root'', 1)]\<rparr>)"
    by blast
  have n: "\<forall>t d. drv_close quiet t d = None" by (simp add: quiet_def)
  with q obtain s1 where s1: "close_in_turn quiet (map snd (connectors two_cached)) two_cached = Some s1"
    by blast
  with q have "close_all_connections quiet two_cached = (Inr (), s1\<lparr>connectors := []\<rparr>)"
    and "closes (trace s1) = closes (trace two_cached) @ map snd (connectors two_cached)"
    by blast+
  then have r2: "fst (close_all_connections quiet two_cached) = Inr ()"
    "connectors (snd (close_all_connections quiet two_cached)) = []"
    "closes (trace (snd (close_all_connections quiet two_cached))) = [0, 1]"
    by (simp_all add: two_cached_fields closes_def)
  from d t close_first_fails r1 n r2 show ?thesis by simp
qed

text \<open>
  The claim as it was stated fails: with two connectors in the cache and a driver that
  fails to close the first, the exception leaves \<open>close_all_connections\<close>, the second
  entry is still in the cache and \<open>close\<close> was invoked on the first connector only.
\<close>

theorem close_all_stops_counterexample:
  "fst (close_all_connections close_fails two_cached)
      = Inl (DriverError ''connection already closed'')
   \<and> connectors (snd (close_all_connections close_fails two_cached))
      = [(''mysql:b:3306:shop:root'', 1)]
   \<and> closes (trace (snd (close_all_connections close_fails two_cached))) = [0]"
  by (simp add: close_all_connections_def two_cached_fields close_first_fails dict_del_def
      closes_def)

text \<open>
  Claim C1. When safety validation is on and the assessment of the query text is not
  safe, \<open>execute_query\<close> returns a failed result whose message is the recommendation of
  the assessment, and the state is the one it started from: the cache is unchanged and
  no event was added to the trace, so no connector was resolved, connected or asked to
  execute.
\<close>

theorem unsafe_query_never_reaches_connector:
  assumes "assess_query_risk (sqlparse_parse E (query q)) (query q) = Inr ra"
      and "\<not> is_safe ra"
  shows "\<exists>res. execute_query E q True s = (Inr res, s)
           \<and> success res = False
           \<and> error_message res = recommendation ra"
  using assms blocked_message_eq [OF assms(1)]
  by (simp add: execute_query_def execute_query_try_def Let_def failure_def)

theorem unsafe_query_never_reaches_connector_witness:
  "snd (execute_query quiet (query_on pg_a ''DELETE FROM users'') True initial) = initial
   \<and> success (projr (fst (execute_query quiet (query_on pg_a ''DELETE FROM users'') True initial)))
       = False
   \<and> error_message
        (projr (fst (execute_query quiet (query_on pg_a ''DELETE FROM users'') True initial)))
       = Some ''Medium risk query''"
proof -
  let ?q = "query_on pg_a ''DELETE FROM users''"
  let ?ra = "\<lparr>risk_level = MEDIUM, risk_score = 65,
          warnings = [''Dangerous operation detected: delete_all'',
                      ''Data modification operation detected'',
                      ''UPDATE/DELETE query without WHERE clause''],
          dangerous_operations = [''delete_all''], is_safe = False,
          recommendation = Some ''Medium risk query''\<rparr>"
  have a: "assess_query_risk (sqlparse_parse quiet (query ?q)) (query ?q) = Inr ?ra"
    by (simp add: quiet_def query_on_def assess_delete_from_users)
  have u: "\<not> is_safe ?ra" by simp
  from unsafe_query_never_reaches_connector [OF a u, of initial]
  obtain res where "execute_query quiet ?q True initial = (Inr res, initial)"
    and "success res = False" and "error_message res = recommendation ?ra"
    by blast
  then show ?thesis by simp
qed

text \<open>
  Claim C2. Each of \<open>execute_query\<close>, \<open>validate_query\<close> and \<open>test_connection\<close> returns
  a value whatever happens inside it, and an exception raised in its body becomes a
  failed result carrying the message of the exception, an assessment that is not safe,
  and \<open>False\<close>.
\<close>

theorem guarded_operations_never_raise:
  "(\<exists>res. fst (execute_query E q vs s) = Inr res)
   \<and> (\<exists>ra. fst (validate_query E txt c s) = Inr ra)
   \<and> (\<exists>b. fst (test_connection E c s) = Inr b)
   \<and> (\<forall>e s1. execute_query_try E q vs (clock E (now s)) s = (Inl e, s1) \<longrightarrow>
         (\<exists>res. execute_query E q vs s = (Inr res, s1)
            \<and> success res = False \<and> error_message res = Some (str_exn e)))
   \<and> (\<forall>e s1. validate_query_try E txt c s = (Inl e, s1) \<longrightarrow>
         (\<exists>ra. validate_query E txt c s = (Inr ra, s1) \<and> is_safe ra = False))
   \<and> (\<forall>e s1. test_connection_try E c s = (Inl e, s1) \<longrightarrow>
         test_connection E c s = (Inr False, s1))"
  by (auto simp: execute_query_def validate_query_def test_connection_def Let_def failure_def
      split: prod.splits sum.splits)

lemma unsupported_lite:
  "get_connector E lite initial =
     (Inl (ValueError ''Unsupported database type: sqlite''), initial)"
  by (simp add: get_connector_def Let_def initial_def lite_def descriptor_def)

theorem guarded_operations_never_raise_witness:
  "execute_query_try quiet (query_on lite ''SELECT 1'') False (clock quiet (now initial)) initial
      = (Inl (ValueError ''Unsupported database type: sqlite''), initial)
   \<and> success (projr (fst (execute_query quiet (query_on lite ''SELECT 1'') False initial))) = False
   \<and> error_message (projr (fst (execute_query quiet (query_on lite ''SELECT 1'') False initial)))
       = Some ''Unsupported database type: sqlite''
   \<and> is_safe (projr (fst (validate_query quiet ''SELECT 1'' lite initial))) = False
   \<and> test_connection quiet lite initial = (Inr False, initial)"
proof -
  let ?q = "query_on lite ''SELECT 1''"
  let ?e = "ValueError ''Unsupported database type: sqlite''"
  have t1: "execute_query_try quiet ?q False (clock quiet (now initial)) initial = (Inl ?e, initial)"
    by (simp add: execute_query_try_def query_on_def unsupported_lite)
  have t2: "validate_query_try quiet ''SELECT 1'' lite initial = (Inl ?e, initial)"
    by (simp add: validate_query_try_def unsupported_lite)
  have t3: "test_connection_try quiet lite initial = (Inl ?e, initial)"
    by (simp add: test_connection_try_def unsupported_lite)
  note g = guarded_operations_never_raise [of quiet ?q False initial "''SELECT 1''" lite]
  from g t1 obtain res where "execute_query quiet ?q False initial = (Inr res, initial)"
    and "success res = False" and "error_message res = Some (str_exn ?e)"
    by blast
  moreover from g t2 obtain ra where "validate_query quiet ''SELECT 1'' lite initial = (Inr ra, initial)"
    and "is_safe ra = False"
    by blast
  moreover from g t3 have "test_connection quiet lite initial = (Inr False, initial)"
    by blast
  ultimately show ?thesis using t1 by simp
qed

section \<open>Query classification\<close>

lemma upper_char_letter:
  assumes "is_upper_ascii (ascii_upper c)"
  shows "upper_char c = [ascii_upper c]"
  using assms
  by (auto simp: is_upper_ascii_def ascii_upper_def upper_char_def Let_def ord_def
      split: if_splits)

lemma upper_letters:
  assumes "list_all is_upper_ascii (map ascii_upper k)"
  shows "upper k = map ascii_upper k"
  using assms by (induction k) (simp_all add: upper_def upper_char_letter)

lemma upper_append: "upper (a @ b) = upper a @ upper b"
  by (simp add: upper_def)

lemma upper_strip_split:
  "upper (strip q) = upper (leading_keyword q) @ upper (dropWhile is_word (strip q))"
  by (simp add: leading_keyword_def flip: upper_append)

lemma keyword_upper:
  "list_all (\<lambda>kw. list_all is_upper_ascii kw \<and> map ascii_upper kw = kw) (map fst keyword_kinds)"
  by code_simp

lemma keyword_led:
  assumes "(kw, kind) \<in> set keyword_kinds" and "same_word (leading_keyword q) kw"
  shows "upper (strip q) = kw @ upper (dropWhile is_word (strip q))"
proof -
  from assms(1) keyword_upper have k: "list_all is_upper_ascii kw" "map ascii_upper kw = kw"
    by (force simp: list_all_iff)+
  with assms(2) have "map ascii_upper (leading_keyword q) = kw"
    by (simp add: same_word_def)
  with k have "upper (leading_keyword q) = kw"
    using upper_letters [of "leading_keyword q"] by simp
  then show ?thesis by (simp add: upper_strip_split)
qed

lemma parse_of_prefix:
  "upper (strip q) = ''SELECT'' @ r \<Longrightarrow> parse_query_type q = SELECT"
  "upper (strip q) = ''INSERT'' @ r \<Longrightarrow> parse_query_type q = INSERT"
  "upper (strip q) = ''UPDATE'' @ r \<Longrightarrow> parse_query_type q = UPDATE"
  "upper (strip q) = ''DELETE'' @ r \<Longrightarrow> parse_query_type q = DELETE"
  "upper (strip q) = ''CREATE'' @ r \<Longrightarrow> parse_query_type q = CREATE"
  "upper (strip q) = ''ALTER'' @ r \<Longrightarrow> parse_query_type q = ALTER"
  "upper (strip q) = ''DROP'' @ r \<Longrightarrow> parse_query_type q = DROP"
  by (simp_all add: parse_query_type_def Let_def startswith_def)

lemma startswith_split: "startswith u kw \<Longrightarrow> u = kw @ drop (length kw) u"
  by (metis append_take_drop_id startswith_def)

text \<open>
  Claim C8, as amended. Classification is a test of the first characters of the
  trimmed, upper-cased text, not of its first word: a statement whose text starts with
  the letters of one of the seven keywords is classified as the kind of that keyword,
  whatever follows these letters, and a statement whose text starts with none of the
  seven words is classified as SELECT. In particular a statement whose leading keyword
  (the first word of the trimmed text, compared without regard to case) is one of the
  seven keywords is classified as the kind of that keyword.
\<close>

theorem classification_by_prefix:
  "((kw, kind) \<in> set keyword_kinds \<and> same_word (leading_keyword q) kw \<longrightarrow>
       parse_query_type q = kind \<and> classify_by_keyword q = kind)
   \<and> (\<not> list_ex (startswith (upper (strip q))) (map fst keyword_kinds) \<longrightarrow>
       parse_query_type q = SELECT)
   \<and> ((kw, kind) \<in> set keyword_kinds \<and> startswith (upper (strip q)) kw \<longrightarrow>
       parse_query_type q = kind)
   \<and> parse_query_type q =
       (case find (\<lambda>kk. startswith (upper (strip q)) (fst kk)) keyword_kinds of
          Some kk \<Rightarrow> snd kk
        | None \<Rightarrow> SELECT)"
proof (intro conjI impI)
  assume a: "(kw, kind) \<in> set keyword_kinds \<and> same_word (leading_keyword q) kw"
  then have u: "upper (strip q) = kw @ upper (dropWhile is_word (strip q))"
    using keyword_led [of kw kind q] by simp
  from a have "same_word (leading_keyword q) kw" by simp
  then have w: "map ascii_upper (leading_keyword q) = map ascii_upper kw"
    by (simp add: same_word_def)
  from a have "(kw, kind) \<in> set keyword_kinds" by simp
  from \<open>(kw, kind) \<in> set keyword_kinds\<close> u show "parse_query_type q = kind"
    by (auto simp: keyword_kinds_def dest: parse_of_prefix)
  from \<open>(kw, kind) \<in> set keyword_kinds\<close> keyword_upper have k: "map ascii_upper kw = kw"
    by (force simp: list_all_iff)
  have ups: "map ascii_upper ''SELECT'' = ''SELECT''" "map ascii_upper ''INSERT'' = ''INSERT''"
    "map ascii_upper ''UPDATE'' = ''UPDATE''" "map ascii_upper ''DELETE'' = ''DELETE''"
    "map ascii_upper ''CREATE'' = ''CREATE''" "map ascii_upper ''ALTER'' = ''ALTER''"
    "map ascii_upper ''DROP'' = ''DROP''"
    using keyword_upper by (simp_all add: keyword_kinds_def)
  from \<open>(kw, kind) \<in> set keyword_kinds\<close> show "classify_by_keyword q = kind"
    unfolding classify_by_keyword_def Let_def same_word_def w k ups
    by (auto simp: keyword_kinds_def)
next
  assume "\<not> list_ex (startswith (upper (strip q))) (map fst keyword_kinds)"
  then show "parse_query_type q = SELECT"
    by (simp add: keyword_kinds_def parse_query_type_def Let_def)
next
  assume a: "(kw, kind) \<in> set keyword_kinds \<and> startswith (upper (strip q)) kw"
  then have "upper (strip q) = kw @ drop (length kw) (upper (strip q))"
    by (simp add: startswith_split)
  with a show "parse_query_type q = kind"
    by (auto simp: keyword_kinds_def dest: parse_of_prefix)
next
  show "parse_query_type q =
       (case find (\<lambda>kk. startswith (upper (strip q)) (fst kk)) keyword_kinds of
          Some kk \<Rightarrow> snd kk
        | None \<Rightarrow> SELECT)"
    by (simp add: keyword_kinds_def parse_query_type_def Let_def)
qed

theorem classification_by_prefix_witness:
  "(''INSERT'', INSERT) \<in> set keyword_kinds
   \<and> same_word (leading_keyword ''  insert into t values (1)'') ''INSERT''
   \<and> parse_query_type ''  insert into t values (1)'' = INSERT
   \<and> \<not> list_ex (startswith (upper (strip ''explain select 1''))) (map fst keyword_kinds)
   \<and> parse_query_type ''explain select 1'' = SELECT
   \<and> (''UPDATE'', UPDATE) \<in> set keyword_kinds
   \<and> startswith (upper (strip '' Updates t'')) ''UPDATE''
   \<and> parse_query_type '' Updates t'' = UPDATE"
proof -
  have m: "(''INSERT'', INSERT) \<in> set keyword_kinds" "(''UPDATE'', UPDATE) \<in> set keyword_kinds"
    by (simp_all add: keyword_kinds_def)
  have w: "same_word (leading_keyword ''  insert into t values (1)'') ''INSERT''"
    by code_simp
  have n: "\<not> list_ex (startswith (upper (strip ''explain select 1''))) (map fst keyword_kinds)"
    by code_simp
  have p: "startswith (upper (strip '' Updates t'')) ''UPDATE''"
    by code_simp
  from classification_by_prefix [of "''INSERT''" INSERT "''  insert into t values (1)''"] m w
  have r1: "parse_query_type ''  insert into t values (1)'' = INSERT" by blast
  from classification_by_prefix [of kw kind "''explain select 1''"] n
  have r2: "parse_query_type ''explain select 1'' = SELECT" by blast
  from classification_by_prefix [of "''UPDATE''" UPDATE "'' Updates t''"] m p
  have r3: "parse_query_type '' Updates t'' = UPDATE" by blast
  from m w n p r1 r2 r3 show ?thesis by simp
qed

text \<open>
  The claim as it was stated fails: the leading keyword of \<open>DROPS x\<close> is \<open>DROPS\<close>,
  which is none of the seven keywords, and the statement is classified as DROP.
\<close>

theorem leading_keyword_counterexample:
  "leading_keyword ''DROPS x'' = ''DROPS''
   \<and> \<not> list_ex (same_word ''DROPS'') (map fst keyword_kinds)
   \<and> classify_by_keyword ''DROPS x'' = SELECT
   \<and> parse_query_type ''DROPS x'' = DROP"
  by code_simp

section \<open>Connection identity\<close>

lemma connect_connectors: "connectors (snd (connect E r s)) = connectors s"
  by (simp add: connect_def Let_def emit_def store_def split: option.splits exn.splits)

lemma connect_trace:
  "connects (trace (snd (connect E r s))) = Suc (connects (trace s))"
  by (simp add: connect_def Let_def emit_def store_def connects_def
      split: option.splits exn.splits)

lemma get_connector_hit:
  "map_of (connectors s) (conn_key d) = Some r \<Longrightarrow> get_connector E d s = (Inr r, s)"
  by (simp add: get_connector_def)

lemma map_of_dict_set_new:
  assumes "map_of d k = None"
  shows "map_of (dict_set k v d) k = Some v"
proof -
  from assms have "k \<notin> fst ` set d" by (simp add: map_of_eq_None_iff)
  with assms show ?thesis by (simp add: dict_set_def map_add_def)
qed

lemma get_connector_cached:
  assumes "get_connector E d s = (Inr r, s1)"
  shows "map_of (connectors s1) (conn_key d) = Some r"
proof (cases "map_of (connectors s) (conn_key d)")
  case (Some r')
  with assms show ?thesis by (simp add: get_connector_def)
next
  case None
  let ?s0 = "(store (next_ref s) \<lparr>connection = d, is_connected = False,
                has_connection = False\<rparr> s)\<lparr>next_ref := Suc (next_ref s)\<rparr>"
  have c: "connectors (snd (connect E (next_ref s) ?s0)) = connectors s"
    by (simp add: connect_connectors store_def)
  from assms None c show ?thesis
    by (auto simp: get_connector_def Let_def map_of_dict_set_new
        split: option.splits prod.splits sum.splits)
qed

lemma get_connector_connects:
  "connects (trace (snd (get_connector E d s))) \<le> Suc (connects (trace s))"
proof -
  let ?s0 = "(store (next_ref s) \<lparr>connection = d, is_connected = False,
                has_connection = False\<rparr> s)\<lparr>next_ref := Suc (next_ref s)\<rparr>"
  have "connects (trace (snd (connect E (next_ref s) ?s0))) = Suc (connects (trace s))"
    by (simp add: connect_trace store_def)
  then show ?thesis
    by (auto simp: get_connector_def Let_def split: option.splits prod.splits sum.splits)
qed

text \<open>
  Two descriptors that agree on the type, the host, the port, the database and the user
  have the same key, whatever their passwords, and once the first has been resolved the
  second is served by the same connector, with no further handshake.
\<close>

theorem same_identity_reuses_connector:
  assumes "database_type d1 = database_type d2" and "host d1 = host d2"
      and "port d1 = port d2" and "database d1 = database d2"
      and "username d1 = username d2"
      and "get_connector E d1 s = (Inr r, s1)"
  shows "conn_key d1 = conn_key d2
       \<and> get_connector E d2 s1 = (Inr r, s1)
       \<and> connects (trace s1) \<le> Suc (connects (trace s))"
proof -
  from assms(1-5) have k: "conn_key d1 = conn_key d2"
    by (simp add: conn_key_def)
  from get_connector_cached [OF assms(6)] k
  have "get_connector E d2 s1 = (Inr r, s1)"
    by (simp add: get_connector_hit)
  moreover from get_connector_connects [of E d1 s] assms(6)
  have "connects (trace s1) \<le> Suc (connects (trace s))" by simp
  ultimately show ?thesis using k by simp
qed

lemma key_pg_a: "conn_key pg_a = ''postgresql:a:5432:shop:root''"
  by code_simp

lemma key_my_b: "conn_key my_b = ''mysql:b:3306:shop:root''"
  by code_simp

lemma module_paths:
  "module_path ''src.database.connectors.postgresql.PostgreSQLConnector''
     = ''src.database.connectors.postgresql''"
  "module_path ''src.database.connectors.mysql.MySQLConnector''
     = ''src.database.connectors.mysql''"
  by (simp_all add: module_path_def)

text \<open>The sample states are reached by resolving the two sample descriptors.\<close>

lemma resolve_pg_a: "get_connector quiet pg_a initial = (Inr 0, one_cached)"
  by (simp add: get_connector_def key_pg_a sample_fields Let_def initial_def connect_def
      emit_def store_def now_def quiet_def dict_set_def one_cached_def connected_def)

lemma resolve_my_b: "get_connector quiet my_b one_cached = (Inr 1, two_cached)"
  by (simp add: get_connector_def key_my_b sample_fields Let_def connect_def emit_def
      store_def now_def quiet_def dict_set_def one_cached_def two_cached_def connected_def)

theorem same_identity_reuses_connector_witness:
  "conn_key pg_a = conn_key (pg_a\<lparr>password := ''other''\<rparr>)
   \<and> get_connector quiet (pg_a\<lparr>password := ''other''\<rparr>) one_cached = (Inr 0, one_cached)
   \<and> connects (trace one_cached) \<le> Suc (connects (trace initial))"
  using same_identity_reuses_connector
    [of pg_a "pg_a\<lparr>password := ''other''\<rparr>" quiet initial 0 one_cached]
  by (simp add: resolve_pg_a)

lemma key_sales_eu: "conn_key sales_eu = ''postgresql:db:5432:sales:eu:app''"
  by code_simp

lemma key_sales: "conn_key sales = ''postgresql:db:5432:sales:eu:app''"
  by code_simp

lemma sales_fields:
  "database_type sales_eu = POSTGRESQL" "database sales_eu = ''sales:eu''"
  "database sales = ''sales''" "username sales_eu = ''app''" "username sales = ''eu:app''"
  by (simp_all add: sales_eu_def sales_def descriptor_def)

lemma resolve_sales_eu: "get_connector quiet sales_eu initial = (Inr 0, sales_cached)"
  by (simp add: get_connector_def key_sales_eu sales_fields Let_def initial_def connect_def
      emit_def store_def now_def quiet_def dict_set_def connected_def sales_cached_def)

lemma resolve_sales: "get_connector quiet sales sales_cached = (Inr 0, sales_cached)"
  by (rule get_connector_hit) (simp add: key_sales sales_cached_def)

text \<open>
  Claim C9 on two descriptors that differ in the database and in the user: the colon
  that separates the fields of the key also occurs inside the fields, the two keys are
  the same text, and the second descriptor is served by the connector that was opened
  for the first, after a single handshake.
\<close>

theorem conn_key_collision:
  "database sales_eu \<noteq> database sales
   \<and> username sales_eu \<noteq> username sales
   \<and> conn_key sales_eu = conn_key sales
   \<and> fst (get_connector quiet sales_eu initial) = Inr 0
   \<and> fst (get_connector quiet sales (snd (get_connector quiet sales_eu initial))) = Inr 0
   \<and> connection (heap (snd (get_connector quiet sales (snd (get_connector quiet sales_eu initial)))) 0)
       = sales_eu
   \<and> connects (trace (snd (get_connector quiet sales (snd (get_connector quiet sales_eu initial)))))
       = 1"
  by (simp add: resolve_sales_eu resolve_sales key_sales key_sales_eu sales_fields)
     (simp add: sales_cached_def connects_def connected_def)

text \<open>
  Away from the colon the key is faithful: descriptors whose host and database contain
  no colon have the same key only if they agree on all five fields, and descriptors
  that differ in the port alone never have the same key.
\<close>

lemma digit_inj:
  assumes "a < 10" and "b < 10" and "digit a = digit b"
  shows "a = b"
proof -
  from assms(3) have "of_char (digit a) = (of_char (digit b) :: nat)" by simp
  with assms(1,2) show ?thesis by (simp add: digit_def)
qed

lemma ord_digit: "d < 10 \<Longrightarrow> ord (digit d) = 48 + d"
  by (simp add: ord_def digit_def)

lemma digits_nonempty: "digits n \<noteq> []"
  by (subst digits.simps) simp

lemma digits_chars: "c \<in> set (digits n) \<Longrightarrow> 48 \<le> ord c \<and> ord c \<le> 57"
proof (induction n rule: digits.induct)
  case (1 n)
  show ?case
  proof (cases "n < 10")
    case True
    with "1.prems" show ?thesis
      by (subst (asm) digits.simps) (simp add: ord_digit)
  next
    case False
    with "1.prems" have "c \<in> set (digits (n div 10)) \<or> c = digit (n mod 10)"
      by (subst (asm) digits.simps) auto
    with False "1.IH" show ?thesis
      by (auto simp: ord_digit)
  qed
qed

lemma digits_inj: "digits n = digits m \<Longrightarrow> n = m"
proof (induction n arbitrary: m rule: digits.induct)
  case (1 n)
  show ?case
  proof (cases "n < 10")
    case n: True
    show ?thesis
    proof (cases "m < 10")
      case True
      with n "1.prems" show ?thesis
        by (simp add: digits.simps [of n] digits.simps [of m] digit_inj)
    next
      case False
      with n "1.prems" digits_nonempty [of "m div 10"] show ?thesis
        by (simp add: digits.simps [of n] digits.simps [of m])
    qed
  next
    case n: False
    show ?thesis
    proof (cases "m < 10")
      case True
      with n "1.prems" digits_nonempty [of "n div 10"] show ?thesis
        by (simp add: digits.simps [of n] digits.simps [of m])
    next
      case False
      with n "1.prems" have e: "digits (n div 10) = digits (m div 10)"
        "digit (n mod 10) = digit (m mod 10)"
        by (simp_all add: digits.simps [of n] digits.simps [of m])
      from "1.IH" [OF n e(1)] have "n div 10 = m div 10" .
      moreover from e(2) have "n mod 10 = m mod 10"
        by (intro digit_inj) simp_all
      ultimately show ?thesis
        by (metis div_mult_mod_eq)
    qed
  qed
qed

lemma ord_minus: "ord CHR ''-'' = 45"
  by (simp add: ord_def)

lemma ord_colon: "ord CHR '':'' = 58"
  by (simp add: ord_def)

lemma str_int_inj: "str_int i = str_int j \<Longrightarrow> i = j"
proof -
  assume e: "str_int i = str_int j"
  have no_minus: "digits n \<noteq> CHR ''-'' # cs" for n cs
  proof
    assume "digits n = CHR ''-'' # cs"
    then have "CHR ''-'' \<in> set (digits n)" by simp
    from digits_chars [OF this] show False by (simp add: ord_minus)
  qed
  show ?thesis
  proof (cases "i < 0")
    case i: True
    show ?thesis
    proof (cases "j < 0")
      case True
      with i e have "nat (- i) = nat (- j)"
        by (simp add: str_int_def digits_inj)
      with i True show ?thesis by simp
    next
      case False
      with i e no_minus [of "nat j"] show ?thesis
        by (simp add: str_int_def) metis
    qed
  next
    case i: False
    show ?thesis
    proof (cases "j < 0")
      case True
      with i e no_minus [of "nat i"] show ?thesis
        by (simp add: str_int_def)
    next
      case False
      with i e have "nat i = nat j"
        by (simp add: str_int_def digits_inj)
      with i False show ?thesis by simp
    qed
  qed
qed

lemma str_int_no_colon: "CHR '':'' \<notin> set (str_int i)"
proof
  assume "CHR '':'' \<in> set (str_int i)"
  then have "CHR '':'' \<in> set (digits (nat (- i))) \<or> CHR '':'' \<in> set (digits (nat i))"
    by (auto simp: str_int_def split: if_splits)
  then show False
    using digits_chars [of "CHR '':''"] by (auto simp: ord_colon)
qed

lemma type_str_no_colon: "CHR '':'' \<notin> set (type_str t)"
  by (cases t) simp_all

lemma type_str_inj: "type_str t = type_str u \<Longrightarrow> t = u"
  by (cases t; cases u) simp_all

lemma split_at_colon:
  assumes "CHR '':'' \<notin> set a" and "CHR '':'' \<notin> set b"
      and "a @ CHR '':'' # r = b @ CHR '':'' # t"
  shows "a = b \<and> r = t"
  using assms
proof (induction a arbitrary: b)
  case Nil
  then show ?case by (cases b) auto
next
  case (Cons x a)
  then show ?case by (cases b) auto
qed

theorem colon_free_keys_are_faithful:
  assumes "CHR '':'' \<notin> set (host d1)" and "CHR '':'' \<notin> set (database d1)"
      and "CHR '':'' \<notin> set (host d2)" and "CHR '':'' \<notin> set (database d2)"
      and "conn_key d1 = conn_key d2"
  shows "database_type d1 = database_type d2 \<and> host d1 = host d2 \<and> port d1 = port d2
       \<and> database d1 = database d2 \<and> username d1 = username d2"
proof -
  from assms(5) have k: "type_str (database_type d1) @ CHR '':'' # host d1 @ CHR '':'' #
      str_int (port d1) @ CHR '':'' # database d1 @ CHR '':'' # username d1
    = type_str (database_type d2) @ CHR '':'' # host d2 @ CHR '':'' #
      str_int (port d2) @ CHR '':'' # database d2 @ CHR '':'' # username d2"
    by (simp add: conn_key_def)
  from split_at_colon [OF type_str_no_colon type_str_no_colon k]
  have t: "type_str (database_type d1) = type_str (database_type d2)"
    and k1: "host d1 @ CHR '':'' # str_int (port d1) @ CHR '':'' # database d1 @ CHR '':'' # username d1
           = host d2 @ CHR '':'' # str_int (port d2) @ CHR '':'' # database d2 @ CHR '':'' # username d2"
    by simp_all
  from split_at_colon [OF assms(1) assms(3) k1]
  have h: "host d1 = host d2"
    and k2: "str_int (port d1) @ CHR '':'' # database d1 @ CHR '':'' # username d1
           = str_int (port d2) @ CHR '':'' # database d2 @ CHR '':'' # username d2"
    by simp_all
  from split_at_colon [OF str_int_no_colon str_int_no_colon k2]
  have p: "str_int (port d1) = str_int (port d2)"
    and k3: "database d1 @ CHR '':'' # username d1 = database d2 @ CHR '':'' # username d2"
    by simp_all
  from split_at_colon [OF assms(2) assms(4) k3]
  have "database d1 = database d2" "username d1 = username d2" by simp_all
  with t h p show ?thesis
    by (simp add: type_str_inj str_int_inj)
qed

theorem port_alone_changes_key:
  assumes "database_type d1 = database_type d2" and "host d1 = host d2"
      and "database d1 = database d2" and "username d1 = username d2"
      and "port d1 \<noteq> port d2"
  shows "conn_key d1 \<noteq> conn_key d2"
proof
  assume "conn_key d1 = conn_key d2"
  with assms(1-4) have "str_int (port d1) = str_int (port d2)"
    by (simp add: conn_key_def)
  with assms(5) show False by (simp add: str_int_inj)
qed

text \<open>
  Descriptors with different keys get different connectors, and both stay in the cache.
\<close>

lemma connect_next_ref: "next_ref (snd (connect E r s)) = next_ref s"
  by (simp add: connect_def Let_def emit_def store_def split: option.splits exn.splits)

lemma get_connector_miss:
  assumes "map_of (connectors s) (conn_key d) = None"
      and "get_connector E d s = (Inr r, s1)"
  shows "r = next_ref s \<and> connectors s1 = connectors s @ [(conn_key d, r)]
       \<and> next_ref s1 = Suc (next_ref s)"
proof -
  let ?s0 = "(store (next_ref s) \<lparr>connection = d, is_connected = False,
                has_connection = False\<rparr> s)\<lparr>next_ref := Suc (next_ref s)\<rparr>"
  have c: "connectors (snd (connect E (next_ref s) ?s0)) = connectors s"
    "next_ref (snd (connect E (next_ref s) ?s0)) = Suc (next_ref s)"
    by (simp_all add: connect_connectors connect_next_ref store_def)
  from assms(1) have "conn_key d \<notin> fst ` set (connectors s)"
    by (simp add: map_of_eq_None_iff)
  with assms c show ?thesis
    by (auto simp: get_connector_def Let_def dict_set_def
        split: option.splits prod.splits sum.splits)
qed

lemma get_connector_wf:
  assumes "wf_state s" and "get_connector E d s = (Inr r, s1)"
  shows "wf_state s1"
proof (cases "map_of (connectors s) (conn_key d)")
  case (Some r')
  with assms show ?thesis by (simp add: get_connector_def)
next
  case None
  from get_connector_miss [OF None assms(2)]
  have m: "r = next_ref s" "connectors s1 = connectors s @ [(conn_key d, r)]"
    "next_ref s1 = Suc (next_ref s)"
    by simp_all
  from None have "conn_key d \<notin> fst ` set (connectors s)"
    by (simp add: map_of_eq_None_iff)
  moreover from assms(1) have "next_ref s \<notin> snd ` set (connectors s)"
    by (auto simp: wf_state_def list_all_iff)
  ultimately show ?thesis
    using assms(1) unfolding wf_state_def m
    by (auto simp: list_all_iff)
qed

lemma cached_ref_allocated:
  assumes "wf_state s" and "map_of (connectors s) k = Some r"
  shows "r < next_ref s"
proof -
  from assms(2) have "(k, r) \<in> set (connectors s)" by (rule map_of_SomeD)
  with assms(1) show ?thesis by (auto simp: wf_state_def list_all_iff)
qed

lemma cached_refs_differ:
  assumes "wf_state s" and "map_of (connectors s) k1 = Some r1"
      and "map_of (connectors s) k2 = Some r2" and "k1 \<noteq> k2"
  shows "r1 \<noteq> r2"
proof
  assume e: "r1 = r2"
  from assms(2,3) have i: "(k1, r1) \<in> set (connectors s)" "(k2, r2) \<in> set (connectors s)"
    by (auto dest: map_of_SomeD)
  from assms(1) have "inj_on snd (set (connectors s))"
    by (simp add: wf_state_def distinct_map)
  from inj_onD [OF this _ i] e have "(k1, r1) = (k2, r2)" by simp
  with assms(4) show False by simp
qed

theorem distinct_keys_independent_connectors:
  assumes "wf_state s" and "conn_key d1 \<noteq> conn_key d2"
      and "get_connector E d1 s = (Inr r1, s1)"
      and "get_connector E d2 s1 = (Inr r2, s2)"
  shows "r1 \<noteq> r2
       \<and> map_of (connectors s2) (conn_key d1) = Some r1
       \<and> map_of (connectors s2) (conn_key d2) = Some r2"
proof -
  from get_connector_cached [OF assms(3)]
  have c1: "map_of (connectors s1) (conn_key d1) = Some r1" .
  from get_connector_wf [OF assms(1,3)] have wf1: "wf_state s1" .
  from get_connector_cached [OF assms(4)]
  have c2: "map_of (connectors s2) (conn_key d2) = Some r2" .
  show ?thesis
  proof (cases "map_of (connectors s1) (conn_key d2)")
    case (Some r)
    with assms(4) have "r2 = r" "s2 = s1" by (simp_all add: get_connector_def)
    with Some c1 c2 cached_refs_differ [OF wf1 c1 _ assms(2)] show ?thesis by simp
  next
    case None
    from get_connector_miss [OF None assms(4)]
    have m: "r2 = next_ref s1" "connectors s2 = connectors s1 @ [(conn_key d2, r2)]"
      by simp_all
    from cached_ref_allocated [OF wf1 c1] m(1) have "r1 \<noteq> r2" by simp
    moreover from c1 m(2) have "map_of (connectors s2) (conn_key d1) = Some r1"
      by (simp add: map_add_def)
    ultimately show ?thesis using c2 by simp
  qed
qed


end
